theory Spec2Isabelle
  imports Complex_Main "HOL-Library.Sublist" "HOL-Library.AList"
begin

text \<open>
  A model of the collection pipeline of \<open>app.py\<close> (YouTube Hot Finder): the quota
  ledger, the gateway \<open>yt_get\<close> with its wait-and-retry loop, the pagination walker
  \<open>fetch_videos_by_search\<close>, the batched detail and channel lookups, the keyword filter
  and the run block that publishes the result set. Session state is passed explicitly,
  every exception is a value of \<open>py_error\<close>, and the server is a script of responses.
  The definitions come first, the facts proved about them after.
\<close>

section \<open>Python values: strings and parsed JSON\<close>

text \<open>
  A Python \<open>str\<close> is modelled as a HOL \<open>string\<close>, each character being the Unicode
  code point of its number: the strings of the model are the strings over the code points
  below 256. On them \<open>str.lower\<close> works character by character: it adds 32 to the code
  points 65-90 (\<open>A\<close>..\<open>Z\<close>), 192-214 and 216-222 (the capital letters of Latin-1) and
  leaves every other one alone. The whitespace of \<open>str.strip\<close>, \<open>str.split\<close> and
  \<open>str.isspace\<close> is the code points 9-13, 28-32, 133 and 160. The operator \<open>k in t\<close>
  on two strings is the contiguous-substring test \<^const>\<open>sublist\<close>.
\<close>

definition lower_char :: "char \<Rightarrow> char" where
  "lower_char c =
     (let n = (of_char c :: nat)
      in if (65 \<le> n \<and> n \<le> 90) \<or> (192 \<le> n \<and> n \<le> 214) \<or> (216 \<le> n \<and> n \<le> 222)
         then char_of (n + 32) else c)"

definition py_lower :: "string \<Rightarrow> string" where
  "py_lower s = map lower_char s"

definition is_space :: "char \<Rightarrow> bool" where
  "is_space c = ((of_char c :: nat) \<in> {9, 10, 11, 12, 13, 28, 29, 30, 31, 32, 133, 160})"

definition py_strip :: "string \<Rightarrow> string" where
  "py_strip s = rev (dropWhile is_space (rev (dropWhile is_space s)))"

definition py_in :: "string \<Rightarrow> string \<Rightarrow> bool" where
  "py_in k t = sublist k t"

text \<open>
  A value parsed from JSON (\<open>r.json()\<close>): \<open>None\<close>, a bool, a number, a string, a list
  or a dict. Numbers are integers here. A dict is an association list in insertion order
  with distinct keys; \<^const>\<open>AList.update\<close> is Python's \<open>d[k] = v\<close> (an existing key
  keeps its place, a new key goes last). Values are compared structurally.
\<close>

datatype json =
  JNull | JBool bool | JInt int | JStr string | JArr "json list" | JObj "(string \<times> json) list"

datatype py_error =
  AttributeError | IndexError | KeyError | TypeError | ValueError | JSONDecodeError
  | OverflowError | ZeroDivisionError | RequestException | RuntimeError int string

text \<open>Truth value of a Python object, as \<open>if x\<close>, \<open>not x\<close> and \<open>x or y\<close> test it.\<close>

fun truthy :: "json \<Rightarrow> bool" where
  "truthy JNull = False"
| "truthy (JBool b) = b"
| "truthy (JInt n) = (n \<noteq> 0)"
| "truthy (JStr s) = (s \<noteq> [])"
| "truthy (JArr xs) = (xs \<noteq> [])"
| "truthy (JObj kvs) = (kvs \<noteq> [])"

text \<open>\<open>d.get(key, default)\<close>: only a dict has the method.\<close>

fun py_get :: "json \<Rightarrow> string \<Rightarrow> json \<Rightarrow> py_error + json" where
  "py_get (JObj kvs) key dflt = Inr (case map_of kvs key of Some v \<Rightarrow> v | None \<Rightarrow> dflt)"
| "py_get _ key dflt = Inl AttributeError"

text \<open>\<open>d[key]\<close> with a string key: KeyError on a dict without it, TypeError elsewhere.\<close>

fun py_item :: "json \<Rightarrow> string \<Rightarrow> py_error + json" where
  "py_item (JObj kvs) key = (case map_of kvs key of Some v \<Rightarrow> Inr v | None \<Rightarrow> Inl KeyError)"
| "py_item _ key = Inl TypeError"

text \<open>
  \<open>x[0]\<close>: the first element of a list or string, IndexError when it is empty; a dict
  parsed from JSON has string keys only, so \<open>0\<close> is a missing key.
\<close>

fun py_first :: "json \<Rightarrow> py_error + json" where
  "py_first (JArr []) = Inl IndexError"
| "py_first (JArr (x # xs)) = Inr x"
| "py_first (JStr []) = Inl IndexError"
| "py_first (JStr (c # cs)) = Inr (JStr [c])"
| "py_first (JObj kvs) = Inl KeyError"
| "py_first _ = Inl TypeError"

text \<open>\<open>for item in x\<close>: the elements of a list, the keys of a dict, the characters of a string.\<close>

fun py_iter :: "json \<Rightarrow> py_error + json list" where
  "py_iter (JArr xs) = Inr xs"
| "py_iter (JObj kvs) = Inr (map (\<lambda>kv. JStr (fst kv)) kvs)"
| "py_iter (JStr s) = Inr (map (\<lambda>c. JStr [c]) s)"
| "py_iter _ = Inl TypeError"

text \<open>\<open>sep.join(xs)\<close>: every element has to be a string.\<close>

fun py_join :: "string \<Rightarrow> json list \<Rightarrow> py_error + string" where
  "py_join sep [] = Inr []"
| "py_join sep [JStr a] = Inr a"
| "py_join sep (JStr a # x # xs) =
     (case py_join sep (x # xs) of Inl e \<Rightarrow> Inl e | Inr r \<Rightarrow> Inr (a @ sep @ r))"
| "py_join sep (_ # xs) = Inl TypeError"

section \<open>The environment and the session state\<close>

text \<open>
  What the program receives from outside its own source is the environment: the outcome
  of the \<open>n\<close>-th HTTP request (\<open>requests.get\<close> returns a response or raises), the
  reading of \<open>time.time()\<close> after it, Python's built-in \<open>str()\<close> on values that
  are not strings, its \<open>int()\<close> on a string (\<open>None\<close> when it raises ValueError),
  \<open>(datetime.utcnow() - timedelta(days=d)).isoformat("T")\<close> as a function of \<open>d\<close>, and
  \<open>datetime.fromisoformat\<close>, which raises ValueError, returns a datetime without offset,
  or returns one with an offset, given by its POSIX timestamp in seconds.
  \<open>r.json()\<close> raising is \<open>resp_json = None\<close>.
\<close>

datatype iso_result = Invalid | Naive | Aware real

record response =
  status_code :: int
  resp_text :: string
  resp_json :: "json option"
  url :: string

datatype http_outcome = Response response | Transport_failure

record env =
  http :: "nat \<Rightarrow> http_outcome"
  clock :: "nat \<Rightarrow> real"
  str_of :: "json \<Rightarrow> string"
  int_of :: "string \<Rightarrow> int option"
  iso_days_ago :: "int \<Rightarrow> string"
  fromisoformat :: "string \<Rightarrow> iso_result"

definition py_str :: "env \<Rightarrow> json \<Rightarrow> string" where
  "py_str E v = (case v of JStr s \<Rightarrow> s | _ \<Rightarrow> str_of E v)"

text \<open>
  \<open>st.session_state\<close> with the keys the pipeline uses. Two history fields are added:
  \<open>sent\<close> lists the HTTP requests issued so far (endpoint and parameter dict) and
  \<open>calls\<close> the invocations of \<open>yt_get\<close>; the program never reads them.
\<close>

type_synonym params = "(string \<times> json) list"

record 'row session =
  q_calls :: "(string \<times> int) list"
  q_units :: int
  q_log :: "(string \<times> int \<times> string \<times> real) list"
  api_waiting :: bool
  api_wait_reason :: string
  results_df :: "'row list"
  payload_cache :: "'row list"
  sent :: "(string \<times> params) list"
  calls :: "(string \<times> params) list"

text \<open>
  \<^verbatim>\<open>
  st.session_state.setdefault("q_calls", {"search": 0, "videos": 0, "channels": 0})
  st.session_state.setdefault("q_units", 0)
  st.session_state.setdefault("q_log", [])
  st.session_state.setdefault("api_waiting", False)
  st.session_state.setdefault("api_wait_reason", "")
  st.session_state.setdefault("results_df", pd.DataFrame())
  st.session_state.setdefault("payload_cache", [])
  \<close>
\<close>

definition session_init :: "'row session" where
  "session_init =
     \<lparr> q_calls = [(''search'', 0), (''videos'', 0), (''channels'', 0)],
       q_units = 0, q_log = [], api_waiting = False, api_wait_reason = [],
       results_df = [], payload_cache = [], sent = [], calls = [] \<rparr>"

section \<open>Quota ledger\<close>

text \<open>
  \<^verbatim>\<open>
  def _quota_units_for(endpoint_name: str) -> int:
      if endpoint_name.startswith("search"): return 100
      if endpoint_name.startswith("videos"): return 1
      if endpoint_name.startswith("channels"): return 1
      return 0
  \<close>
\<close>

definition quota_units_for :: "string \<Rightarrow> int" where
  "quota_units_for endpoint_name =
     (if prefix ''search'' endpoint_name then 100
      else if prefix ''videos'' endpoint_name then 1
      else if prefix ''channels'' endpoint_name then 1
      else 0)"

text \<open>\<open>st.session_state["q_calls"][key] += 1\<close>, a KeyError when the key is missing.\<close>

definition bump_call :: "string \<Rightarrow> 'row session \<Rightarrow> py_error + 'row session" where
  "bump_call key s =
     (case map_of (q_calls s) key of
        None \<Rightarrow> Inl KeyError
      | Some n \<Rightarrow> Inr (s\<lparr>q_calls := AList.update key (n + 1) (q_calls s)\<rparr>))"

text \<open>
  \<^verbatim>\<open>
  def _record_quota(endpoint_name: str, path: str) -> None:
      units = _quota_units_for(endpoint_name)
      if endpoint_name.startswith("search"):
          st.session_state["q_calls"]["search"] += 1
      elif endpoint_name.startswith("videos"):
          st.session_state["q_calls"]["videos"] += 1
      elif endpoint_name.startswith("channels"):
          st.session_state["q_calls"]["channels"] += 1
      st.session_state["q_units"] += units
      st.session_state["q_log"].append((endpoint_name, units, path, time.time()))
  \<close>
  The reading of the clock is the argument \<open>now\<close>.
\<close>

definition record_quota ::
  "string \<Rightarrow> string \<Rightarrow> real \<Rightarrow> 'row session \<Rightarrow> py_error + 'row session" where
  "record_quota endpoint_name path now s =
     (let units = quota_units_for endpoint_name in
      case (if prefix ''search'' endpoint_name then bump_call ''search'' s
            else if prefix ''videos'' endpoint_name then bump_call ''videos'' s
            else if prefix ''channels'' endpoint_name then bump_call ''channels'' s
            else Inr s) of
        Inl e \<Rightarrow> Inl e
      | Inr s1 \<Rightarrow>
          Inr (s1\<lparr>q_units := q_units s1 + units,
                  q_log := q_log s1 @ [(endpoint_name, units, path, now)]\<rparr>))"

text \<open>A sequence of recorded calls: endpoint name, request target and clock reading of each.\<close>

fun record_calls ::
  "(string \<times> string \<times> real) list \<Rightarrow> 'row session \<Rightarrow> py_error + 'row session" where
  "record_calls [] s = Inr s"
| "record_calls ((endpoint_name, path, now) # cs) s =
     (case record_quota endpoint_name path now s of
        Inl e \<Rightarrow> Inl e
      | Inr s1 \<Rightarrow> record_calls cs s1)"

subsection \<open>Ledger invariant\<close>

text \<open>
  The ledger is consistent when its dict of counters has the three endpoint kinds and the
  unit total is the sum of count times unit cost over them.
\<close>

definition ledger_ok :: "'row session \<Rightarrow> bool" where
  "ledger_ok s \<longleftrightarrow>
     map fst (q_calls s) = [''search'', ''videos'', ''channels'']
     \<and> q_units s = (\<Sum>(k, n) \<leftarrow> q_calls s. n * quota_units_for k)"

section \<open>Rate-limited API gateway\<close>

text \<open>
  \<^verbatim>\<open>
  body = {}
  try:
      body = r.json()
  except Exception:
      pass
  err_reason = (
      (body.get("error", {}).get("errors", [{}])[0].get("reason"))
      or body.get("error", {}).get("message", "")
      or r.text
  )
  \<close>
  The lookups are outside the \<open>try\<close>: on a body of another shape they raise.
\<close>

definition err_reason :: "response \<Rightarrow> py_error + json" where
  "err_reason r =
     (let body = (case resp_json r of None \<Rightarrow> JObj [] | Some j \<Rightarrow> j) in
      case py_get body ''error'' (JObj []) of Inl e \<Rightarrow> Inl e | Inr err \<Rightarrow>
      case py_get err ''errors'' (JArr [JObj []]) of Inl e \<Rightarrow> Inl e | Inr errs \<Rightarrow>
      case py_first errs of Inl e \<Rightarrow> Inl e | Inr fst_err \<Rightarrow>
      case py_get fst_err ''reason'' JNull of Inl e \<Rightarrow> Inl e | Inr reason \<Rightarrow>
      if truthy reason then Inr reason
      else case py_get err ''message'' (JStr []) of Inl e \<Rightarrow> Inl e | Inr msg \<Rightarrow>
      if truthy msg then Inr msg else Inr (JStr (resp_text r)))"

text \<open>\<open>any(k in str(err_reason).lower() for k in ["quota", "daily", "rate", "exceed"])\<close>\<close>

definition is_quota_reason :: "env \<Rightarrow> json \<Rightarrow> bool" where
  "is_quota_reason E reason =
     list_ex (\<lambda>k. py_in k (py_lower (py_str E reason)))
       [''quota'', ''daily'', ''rate'', ''exceed'']"

text \<open>
  \<^verbatim>\<open>
  def yt_get(endpoint, params, api_key, wait_minutes=0.0, max_retries=2):
      params = {**params, "key": api_key}
      tries = 0
      while True:
          r = requests.get(f"{API_BASE}/{endpoint}", params=params, timeout=30)
          if r.status_code == 200:
              _record_quota(endpoint, r.url)
              return r.json()
          tries += 1
          ... err_reason ...
          if (r.status_code in (403, 429)
              and any(k in str(err_reason).lower() for k in [...])
              and wait_minutes > 0
              and tries <= max_retries):
              st.session_state["api_waiting"] = True
              st.session_state["api_wait_reason"] = f"{endpoint}: {err_reason}"
              ... sleep int(wait_minutes * 60) seconds ...
              st.session_state["api_waiting"] = False
              continue
          raise RuntimeError(f"YouTube API error {r.status_code}: {r.text}")
  \<close>
  \<open>yt_get_loop\<close> is the \<open>while\<close> loop, entered with the value of \<open>tries\<close>, the
  number of failed attempts so far; \<open>tries + 1\<close> is its value after \<open>tries += 1\<close>. The
  sleep changes no state but \<open>api_waiting\<close>, which is \<open>False\<close> again after it. The
  RuntimeError carries the status code and the raw body.
\<close>

function yt_get_loop ::
  "env \<Rightarrow> string \<Rightarrow> params \<Rightarrow> real \<Rightarrow> int \<Rightarrow> int \<Rightarrow> 'row session
   \<Rightarrow> (py_error + json) \<times> 'row session" where
  "yt_get_loop E endpoint params wait_minutes max_retries tries s =
     (let n = length (sent s);
          s1 = s\<lparr>sent := sent s @ [(endpoint, params)]\<rparr>
      in case http E n of
           Transport_failure \<Rightarrow> (Inl RequestException, s1)
         | Response r \<Rightarrow>
             if status_code r = 200 then
               (case record_quota endpoint (url r) (clock E n) s1 of
                  Inl e \<Rightarrow> (Inl e, s1)
                | Inr s2 \<Rightarrow>
                    (case resp_json r of
                       None \<Rightarrow> (Inl JSONDecodeError, s2)
                     | Some data \<Rightarrow> (Inr data, s2)))
             else
               (case err_reason r of
                  Inl e \<Rightarrow> (Inl e, s1)
                | Inr reason \<Rightarrow>
                    if status_code r \<in> {403, 429}
                       \<and> is_quota_reason E reason
                       \<and> wait_minutes > 0
                       \<and> tries + 1 \<le> max_retries
                    then yt_get_loop E endpoint params wait_minutes max_retries (tries + 1)
                           (s1\<lparr>api_waiting := False,
                               api_wait_reason := endpoint @ '': '' @ py_str E reason\<rparr>)
                    else (Inl (RuntimeError (status_code r) (resp_text r)), s1)))"
  by pat_completeness auto
termination
  by (relation "measure (\<lambda>(E, endpoint, params, wait_minutes, max_retries, tries, s).
        nat (max_retries - tries))") auto

definition yt_get ::
  "env \<Rightarrow> string \<Rightarrow> params \<Rightarrow> string \<Rightarrow> real \<Rightarrow> int \<Rightarrow> 'row session
   \<Rightarrow> (py_error + json) \<times> 'row session" where
  "yt_get E endpoint params api_key wait_minutes max_retries s =
     (let params1 = AList.update ''key'' (JStr api_key) params
      in yt_get_loop E endpoint params1 wait_minutes max_retries 0
           (s\<lparr>calls := calls s @ [(endpoint, params1)]\<rparr>))"

section \<open>Pagination walker\<close>

text \<open>
  The inner loop of the walker over the items of one page:
  \<^verbatim>\<open>
  for item in data.get("items", []):
      vid = item["id"]["videoId"]
      ids.append(vid)
      if len(ids) >= max_results: return ids
  \<close>
  The flag of the result is \<open>True\<close> when the \<open>return\<close> was taken.
\<close>

fun take_items :: "json list \<Rightarrow> int \<Rightarrow> json list \<Rightarrow> py_error + bool \<times> json list" where
  "take_items [] max_results ids = Inr (False, ids)"
| "take_items (item # rest) max_results ids =
     (case py_item item ''id'' of Inl e \<Rightarrow> Inl e | Inr i \<Rightarrow>
      case py_item i ''videoId'' of Inl e \<Rightarrow> Inl e | Inr vid \<Rightarrow>
        let ids1 = ids @ [vid]
        in if int (length ids1) \<ge> max_results then Inr (True, ids1)
           else take_items rest max_results ids1)"

text \<open>
  \<^verbatim>\<open>
  next_page = None
  while True:
      if next_page: params["pageToken"] = next_page
      data = yt_get("search", params, api_key, wait_minutes=wait_minutes)
      for item in data.get("items", []): ...
      next_page = data.get("nextPageToken")
      if not next_page: break
  return ids
  \<close>
  The loop ends only when the server stops sending a page token or the cap is reached, so
  it is given fuel: one unit per page, and \<open>None\<close> when the fuel runs out before the
  loop ends. The gateway is called with its default \<open>max_retries = 2\<close>.
\<close>

fun search_pages ::
  "nat \<Rightarrow> env \<Rightarrow> params \<Rightarrow> string \<Rightarrow> real \<Rightarrow> int \<Rightarrow> json \<Rightarrow> json list \<Rightarrow> 'row session
   \<Rightarrow> (py_error + json list) option \<times> 'row session" where
  "search_pages 0 E params api_key wait_minutes max_results next_page ids s = (None, s)"
| "search_pages (Suc fuel) E params api_key wait_minutes max_results next_page ids s =
     (let params1 = (if truthy next_page then AList.update ''pageToken'' next_page params
                     else params)
      in case yt_get E ''search'' params1 api_key wait_minutes 2 s of
           (Inl e, s1) \<Rightarrow> (Some (Inl e), s1)
         | (Inr data, s1) \<Rightarrow>
             (case py_get data ''items'' (JArr []) of Inl e \<Rightarrow> (Some (Inl e), s1) | Inr items \<Rightarrow>
              case py_iter items of Inl e \<Rightarrow> (Some (Inl e), s1) | Inr its \<Rightarrow>
              case take_items its max_results ids of
                Inl e \<Rightarrow> (Some (Inl e), s1)
              | Inr (True, ids1) \<Rightarrow> (Some (Inr ids1), s1)
              | Inr (False, ids1) \<Rightarrow>
                  (case py_get data ''nextPageToken'' JNull of
                     Inl e \<Rightarrow> (Some (Inl e), s1)
                   | Inr np \<Rightarrow>
                       if \<not> truthy np then (Some (Inr ids1), s1)
                       else search_pages fuel E params1 api_key wait_minutes max_results
                              np ids1 s1)))"

text \<open>\<open>if v: params[k] = v\<close>\<close>

definition set_param :: "string \<Rightarrow> json \<Rightarrow> params \<Rightarrow> params" where
  "set_param k v ps = (if truthy v then AList.update k v ps else ps)"

text \<open>
  \<^verbatim>\<open>
  def fetch_videos_by_search(api_key, query=None, channel_id=None, region_code=None,
          relevance_language=None, published_after=None, max_results=100,
          order="viewCount", wait_minutes=0.0) -> List[str]:
      effective_order = "date" if (published_after and order != "date") else order
      ids: List[str] = []
      params = {"part":"snippet","type":"video","maxResults":50,"order":effective_order}
      if query: params["q"] = query
      if channel_id: params["channelId"] = channel_id
      if region_code: params["regionCode"] = region_code
      if relevance_language: params["relevanceLanguage"] = relevance_language
      if published_after: params["publishedAfter"] = published_after
      ...
  \<close>
  The optional arguments are Python values: \<open>JNull\<close> for \<open>None\<close>, \<open>JStr\<close> for a
  string.
\<close>

definition effective_order :: "json \<Rightarrow> string \<Rightarrow> string" where
  "effective_order published_after order =
     (if truthy published_after \<and> order \<noteq> ''date'' then ''date'' else order)"

definition fetch_videos_by_search ::
  "nat \<Rightarrow> env \<Rightarrow> string \<Rightarrow> json \<Rightarrow> json \<Rightarrow> json \<Rightarrow> json \<Rightarrow> json \<Rightarrow> int \<Rightarrow> string \<Rightarrow> real
   \<Rightarrow> 'row session \<Rightarrow> (py_error + json list) option \<times> 'row session" where
  "fetch_videos_by_search fuel E api_key query channel_id region_code relevance_language
      published_after max_results order wait_minutes s =
     (let params = [(''part'', JStr ''snippet''), (''type'', JStr ''video''),
                    (''maxResults'', JInt 50),
                    (''order'', JStr (effective_order published_after order))];
          params = set_param ''q'' query params;
          params = set_param ''channelId'' channel_id params;
          params = set_param ''regionCode'' region_code params;
          params = set_param ''relevanceLanguage'' relevance_language params;
          params = set_param ''publishedAfter'' published_after params
      in search_pages fuel E params api_key wait_minutes max_results JNull [] s)"

subsection \<open>Identifiers delivered to a walk\<close>

text \<open>
  The video identifiers that the items of a page carry, up to the first item that has
  none; the identifiers of the response to the \<open>n\<close>-th request (none unless its status
  is 200 and its body parses); and those of the requests \<open>lo\<close> up to \<open>hi - 1\<close>, in
  order.
\<close>

fun item_vids :: "json list \<Rightarrow> json list" where
  "item_vids [] = []"
| "item_vids (item # rest) =
     (case py_item item ''id'' of Inl e \<Rightarrow> [] | Inr i \<Rightarrow>
      case py_item i ''videoId'' of Inl e \<Rightarrow> [] | Inr vid \<Rightarrow> vid # item_vids rest)"

definition data_vids :: "json \<Rightarrow> json list" where
  "data_vids data =
     (case py_get data ''items'' (JArr []) of Inl e \<Rightarrow> [] | Inr items \<Rightarrow>
      case py_iter items of Inl e \<Rightarrow> [] | Inr its \<Rightarrow> item_vids its)"

definition page_vids :: "http_outcome \<Rightarrow> json list" where
  "page_vids out =
     (case out of
        Transport_failure \<Rightarrow> []
      | Response r \<Rightarrow>
          if status_code r = 200
          then (case resp_json r of None \<Rightarrow> [] | Some data \<Rightarrow> data_vids data)
          else [])"

definition delivered :: "env \<Rightarrow> nat \<Rightarrow> nat \<Rightarrow> json list" where
  "delivered E lo hi = concat (map (\<lambda>n. page_vids (http E n)) [lo..<hi])"

section \<open>Batched detail and channel lookups\<close>

text \<open>
  \<^verbatim>\<open>
  def batched(iterable: List[Any], n: int):
      batch = []
      for x in iterable:
          batch.append(x)
          if len(batch) == n:
              yield batch; batch = []
      if batch: yield batch
  \<close>
  The generator has no effect of its own, so it is the list of the batches it yields.
\<close>

fun batched_from :: "'a list \<Rightarrow> int \<Rightarrow> 'a list \<Rightarrow> 'a list list" where
  "batched_from [] n batch = (if batch \<noteq> [] then [batch] else [])"
| "batched_from (x # xs) n batch =
     (let batch1 = batch @ [x]
      in if int (length batch1) = n then batch1 # batched_from xs n []
         else batched_from xs n batch1)"

definition batched :: "'a list \<Rightarrow> int \<Rightarrow> 'a list list" where
  "batched iterable n = batched_from iterable n []"

text \<open>A list or a dict cannot be a dict key or a set element (TypeError: unhashable).\<close>

fun hashable :: "json \<Rightarrow> bool" where
  "hashable (JArr xs) = False"
| "hashable (JObj kvs) = False"
| "hashable _ = True"

text \<open>\<open>for item in data.get("items", []): details[item["id"]] = item\<close>\<close>

fun store_items :: "json list \<Rightarrow> (json \<times> json) list \<Rightarrow> py_error + (json \<times> json) list" where
  "store_items [] details = Inr details"
| "store_items (item # rest) details =
     (case py_item item ''id'' of Inl e \<Rightarrow> Inl e | Inr k \<Rightarrow>
      if hashable k then store_items rest (AList.update k item details)
      else Inl TypeError)"

text \<open>
  \<^verbatim>\<open>
  def fetch_video_details(api_key, video_ids, wait_minutes=0.0) -> Dict[str, Any]:
      details: Dict[str, Any] = {}
      if not video_ids: return details
      for batch in batched(video_ids, 50):
          data = yt_get("videos", {"part":"snippet,contentDetails,statistics",
                                   "id":",".join(batch)}, api_key, wait_minutes=wait_minutes)
          for item in data.get("items", []):
              details[item["id"]] = item
      return details
  \<close>
\<close>

definition videos_params :: "string \<Rightarrow> params" where
  "videos_params joined =
     [(''part'', JStr ''snippet,contentDetails,statistics''), (''id'', JStr joined)]"

fun details_batches ::
  "env \<Rightarrow> string \<Rightarrow> real \<Rightarrow> json list list \<Rightarrow> (json \<times> json) list \<Rightarrow> 'row session
   \<Rightarrow> (py_error + (json \<times> json) list) \<times> 'row session" where
  "details_batches E api_key wait_minutes [] details s = (Inr details, s)"
| "details_batches E api_key wait_minutes (batch # rest) details s =
     (case py_join '','' batch of Inl e \<Rightarrow> (Inl e, s) | Inr joined \<Rightarrow>
      case yt_get E ''videos'' (videos_params joined) api_key wait_minutes 2 s of
        (Inl e, s1) \<Rightarrow> (Inl e, s1)
      | (Inr data, s1) \<Rightarrow>
          (case py_get data ''items'' (JArr []) of Inl e \<Rightarrow> (Inl e, s1) | Inr items \<Rightarrow>
           case py_iter items of Inl e \<Rightarrow> (Inl e, s1) | Inr its \<Rightarrow>
           case store_items its details of Inl e \<Rightarrow> (Inl e, s1) | Inr details1 \<Rightarrow>
             details_batches E api_key wait_minutes rest details1 s1))"

definition fetch_video_details ::
  "env \<Rightarrow> string \<Rightarrow> json list \<Rightarrow> real \<Rightarrow> 'row session
   \<Rightarrow> (py_error + (json \<times> json) list) \<times> 'row session" where
  "fetch_video_details E api_key video_ids wait_minutes s =
     (if video_ids = [] then (Inr [], s)
      else details_batches E api_key wait_minutes (batched video_ids 50) [] s)"

text \<open>
  The gateway call that \<open>fetch_video_details\<close> makes for one batch: kind \<open>videos\<close>,
  the comma-joined batch as \<open>id\<close>, the credential added by \<open>yt_get\<close>.
\<close>

definition videos_call :: "string \<Rightarrow> json list \<Rightarrow> string \<times> params \<Rightarrow> bool" where
  "videos_call api_key batch c =
     (case py_join '','' batch of
        Inl e \<Rightarrow> False
      | Inr joined \<Rightarrow> c = (''videos'', AList.update ''key'' (JStr api_key) (videos_params joined)))"

subsection \<open>Channel subscriber lookups\<close>

text \<open>
  \<open>int(x)\<close> on a parsed value: a number is itself, a bool is 0 or 1, a string is parsed
  (ValueError when it is no numeral), anything else is a TypeError.
\<close>

fun py_int :: "env \<Rightarrow> json \<Rightarrow> py_error + int" where
  "py_int E (JInt n) = Inr n"
| "py_int E (JBool b) = Inr (if b then 1 else 0)"
| "py_int E (JStr t) = (case int_of E t of None \<Rightarrow> Inl ValueError | Some n \<Rightarrow> Inr n)"
| "py_int E _ = Inl TypeError"

text \<open>
  \<^verbatim>\<open>
  for item in data.get("items", []):
      subs[item["id"]] = int(item["statistics"].get("subscriberCount", 0))
  \<close>
\<close>

fun store_subs ::
  "env \<Rightarrow> json list \<Rightarrow> (json \<times> int) list \<Rightarrow> py_error + (json \<times> int) list" where
  "store_subs E [] subs = Inr subs"
| "store_subs E (item # rest) subs =
     (case py_item item ''statistics'' of Inl e \<Rightarrow> Inl e | Inr stats \<Rightarrow>
      case py_get stats ''subscriberCount'' (JInt 0) of Inl e \<Rightarrow> Inl e | Inr c \<Rightarrow>
      case py_int E c of Inl e \<Rightarrow> Inl e | Inr n \<Rightarrow>
      case py_item item ''id'' of Inl e \<Rightarrow> Inl e | Inr k \<Rightarrow>
      if hashable k then store_subs E rest (AList.update k n subs) else Inl TypeError)"

text \<open>
  \<^verbatim>\<open>
  def fetch_channel_subs(api_key, channel_ids, wait_minutes=0.0) -> Dict[str, int]:
      subs: Dict[str, int] = {}
      if not channel_ids: return subs
      for batch in batched(channel_ids, 50):
          data = yt_get("channels", {"part":"statistics","id":",".join(batch)},
                        api_key, wait_minutes=wait_minutes)
          for item in data.get("items", []): ...
      return subs
  \<close>
\<close>

fun subs_batches ::
  "env \<Rightarrow> string \<Rightarrow> real \<Rightarrow> json list list \<Rightarrow> (json \<times> int) list \<Rightarrow> 'row session
   \<Rightarrow> (py_error + (json \<times> int) list) \<times> 'row session" where
  "subs_batches E api_key wait_minutes [] subs s = (Inr subs, s)"
| "subs_batches E api_key wait_minutes (batch # rest) subs s =
     (case py_join '','' batch of Inl e \<Rightarrow> (Inl e, s) | Inr joined \<Rightarrow>
      case yt_get E ''channels'' [(''part'', JStr ''statistics''), (''id'', JStr joined)]
             api_key wait_minutes 2 s of
        (Inl e, s1) \<Rightarrow> (Inl e, s1)
      | (Inr data, s1) \<Rightarrow>
          (case py_get data ''items'' (JArr []) of Inl e \<Rightarrow> (Inl e, s1) | Inr items \<Rightarrow>
           case py_iter items of Inl e \<Rightarrow> (Inl e, s1) | Inr its \<Rightarrow>
           case store_subs E its subs of Inl e \<Rightarrow> (Inl e, s1) | Inr subs1 \<Rightarrow>
             subs_batches E api_key wait_minutes rest subs1 s1))"

definition fetch_channel_subs ::
  "env \<Rightarrow> string \<Rightarrow> json list \<Rightarrow> real \<Rightarrow> 'row session
   \<Rightarrow> (py_error + (json \<times> int) list) \<times> 'row session" where
  "fetch_channel_subs E api_key channel_ids wait_minutes s =
     (if channel_ids = [] then (Inr [], s)
      else subs_batches E api_key wait_minutes (batched channel_ids 50) [] s)"

section \<open>Keyword strict filter\<close>

text \<open>
  \<^verbatim>\<open>
  def normalize_text(s: str) -> str:
      return (s or "").lower()

  def contains_keywords(text: str, keywords: List[str], mode: str) -> bool:
      if not keywords:
          return True
      t = normalize_text(text)
      ks = [normalize_text(k) for k in keywords if k.strip()]
      if mode == "all":
          return all(k in t for k in ks)
      else:
          return any(k in t for k in ks)
  \<close>
  On a string, \<open>s or ""\<close> is \<open>s\<close>.
\<close>

definition normalize_text :: "string \<Rightarrow> string" where
  "normalize_text s = py_lower s"

definition contains_keywords :: "string \<Rightarrow> string list \<Rightarrow> string \<Rightarrow> bool" where
  "contains_keywords text keywords mode =
     (if keywords = [] then True
      else
        let t = normalize_text text;
            ks = map normalize_text (filter (\<lambda>k. py_strip k \<noteq> []) keywords)
        in if mode = ''all'' then list_all (\<lambda>k. py_in k t) ks
           else list_ex (\<lambda>k. py_in k t) ks)"

section \<open>Metric calculator\<close>

text \<open>
  \<^verbatim>\<open>
  def iso8601_to_seconds(duration: str) -> int:
      m = re.fullmatch(r'PT(?:(\d+)H)?(?:(\d+)M)?(?:(\d+)S)?', duration)
      if not m: return 0
      h = int(m.group(1) or 0); m_ = int(m.group(2) or 0); s = int(m.group(3) or 0)
      return h*3600 + m_*60 + s
  \<close>
  Among the code points below 256 the class \<open>\d\<close> holds the digits \<open>0\<close>..\<open>9\<close> only.
  An optional group \<open>(?:(\d+)X)?\<close> takes the longest run of digits when it is not
  empty and the letter \<open>X\<close> follows it, and nothing otherwise: no other choice can lead
  to a match of the whole string. The pattern on anything but a string is a TypeError.
\<close>

definition is_digit :: "char \<Rightarrow> bool" where
  "is_digit c = (48 \<le> (of_char c :: nat) \<and> (of_char c :: nat) \<le> 57)"

definition read_group :: "char \<Rightarrow> string \<Rightarrow> string option \<times> string" where
  "read_group letter s =
     (let ds = takeWhile is_digit s
      in case dropWhile is_digit s of
           [] \<Rightarrow> (None, s)
         | c # r \<Rightarrow> if ds \<noteq> [] \<and> c = letter then (Some ds, r) else (None, s))"

text \<open>\<open>int(g or 0)\<close> on a group: 0 when the group did not take part in the match.\<close>

definition int_or_0 :: "env \<Rightarrow> string option \<Rightarrow> py_error + int" where
  "int_or_0 E g = (case g of None \<Rightarrow> Inr 0 | Some ds \<Rightarrow> py_int E (JStr ds))"

definition iso8601_to_seconds :: "env \<Rightarrow> json \<Rightarrow> py_error + int" where
  "iso8601_to_seconds E duration =
     (case duration of
        JStr d \<Rightarrow>
          if prefix ''PT'' d then
            let (g1, r1) = read_group CHR ''H'' (drop 2 d);
                (g2, r2) = read_group CHR ''M'' r1;
                (g3, r3) = read_group CHR ''S'' r2
            in if r3 = [] then
                 (case int_or_0 E g1 of Inl e \<Rightarrow> Inl e | Inr h \<Rightarrow>
                  case int_or_0 E g2 of Inl e \<Rightarrow> Inl e | Inr m \<Rightarrow>
                  case int_or_0 E g3 of Inl e \<Rightarrow> Inl e | Inr sec \<Rightarrow>
                    Inr (h * 3600 + m * 60 + sec))
               else Inr 0
          else Inr 0
      | _ \<Rightarrow> Inl TypeError)"

text \<open>
  A Python \<open>float\<close> is a real number or one of the two infinities. Rounding is left out:
  a real number whose absolute value is below \<open>2^1024 - 2^970\<close>, the least number
  that rounds to infinity, stands for the double nearest to it. \<open>to_float x\<close> is the
  float an operation returns whose exact result is \<open>x\<close>.
\<close>

definition dbl_overflow :: real where
  "dbl_overflow = 2 ^ 1024 - 2 ^ 970"

datatype pyfloat = Fin real | PInf | NInf

definition to_float :: "real \<Rightarrow> pyfloat" where
  "to_float x = (if dbl_overflow \<le> x then PInf else if x \<le> - dbl_overflow then NInf else Fin x)"

fun float_le :: "pyfloat \<Rightarrow> pyfloat \<Rightarrow> bool" where
  "float_le (Fin x) (Fin y) = (x \<le> y)"
| "float_le NInf b = True"
| "float_le a PInf = True"
| "float_le a b = False"

text \<open>
  \<open>a / b\<close> with an \<open>int\<close> on the left and a float on the right: the \<open>int\<close> is
  converted first, which raises OverflowError from \<open>2^1024 - 2^970\<close> on; a divisor 0
  raises ZeroDivisionError; a quotient too large is an infinity, without an exception.
\<close>

definition py_truediv :: "int \<Rightarrow> real \<Rightarrow> py_error + pyfloat" where
  "py_truediv a b =
     (if dbl_overflow \<le> \<bar>real_of_int a\<bar> then Inl OverflowError
      else if b = 0 then Inl ZeroDivisionError
      else Inr (to_float (real_of_int a / b)))"

text \<open>\<open>s.replace('Z', '+00:00')\<close>\<close>

definition replace_Z :: "string \<Rightarrow> string" where
  "replace_Z t = concat (map (\<lambda>c. if c = CHR ''Z'' then ''+00:00'' else [c]) t)"

text \<open>
  \<open>max((now - published_dt).total_seconds() / 3600.0, 1e-6)\<close>, the two moments given
  by their POSIX timestamps.
\<close>

definition hours_since :: "real \<Rightarrow> real \<Rightarrow> real" where
  "hours_since now published = max ((now - published) / 3600) (1 / 10 ^ 6)"

text \<open>
  The dict \<open>compute_metrics\<close> returns; \<open>publishedAt\<close> is the timestamp of
  \<open>published_dt\<close>.
\<close>

record metrics =
  publishedAt :: real
  views :: int
  viewsPerHour :: pyfloat
  durationSec :: int

text \<open>
  \<^verbatim>\<open>
  def compute_metrics(detail: Dict[str, Any]) -> Dict[str, Any]:
      snip = detail["snippet"]; stats = detail.get("statistics", {});
      content = detail.get("contentDetails", {})
      published_dt = datetime.fromisoformat(snip["publishedAt"].replace('Z', '+00:00'))
      now = datetime.now(timezone.utc)
      hours_since = max((now - published_dt).total_seconds() / 3600.0, 1e-6)
      views = int(stats.get("viewCount", 0)); vph = views / hours_since
      dur_sec = iso8601_to_seconds(content.get("duration", "PT0S"))
      return {"publishedAt": published_dt, "views": views, "viewsPerHour": vph,
              "durationSec": dur_sec}
  \<close>
  One definition for each line of the body. A value without the method \<open>replace\<close> is an
  AttributeError; the difference of \<open>now\<close>, which has an offset, and a datetime without
  one is a TypeError. The reading of \<open>datetime.now\<close> is the parameter \<open>now\<close>.
\<close>

definition detail_parts :: "json \<Rightarrow> py_error + json \<times> json \<times> json" where
  "detail_parts detail =
     (case py_item detail ''snippet'' of Inl e \<Rightarrow> Inl e | Inr snip \<Rightarrow>
      case py_get detail ''statistics'' (JObj []) of Inl e \<Rightarrow> Inl e | Inr stats \<Rightarrow>
      case py_get detail ''contentDetails'' (JObj []) of Inl e \<Rightarrow> Inl e | Inr content \<Rightarrow>
        Inr (snip, stats, content))"

definition parse_published :: "env \<Rightarrow> json \<Rightarrow> py_error + iso_result" where
  "parse_published E snip =
     (case py_item snip ''publishedAt'' of Inl e \<Rightarrow> Inl e | Inr p \<Rightarrow>
      case p of
        JStr t \<Rightarrow>
          (case fromisoformat E (replace_Z t) of
             Invalid \<Rightarrow> Inl ValueError
           | r \<Rightarrow> Inr r)
      | _ \<Rightarrow> Inl AttributeError)"

definition elapsed_hours :: "real \<Rightarrow> iso_result \<Rightarrow> py_error + real" where
  "elapsed_hours now published_dt =
     (case published_dt of
        Aware t \<Rightarrow> Inr (hours_since now t)
      | _ \<Rightarrow> Inl TypeError)"

definition timestamp_of :: "iso_result \<Rightarrow> real" where
  "timestamp_of published_dt = (case published_dt of Aware t \<Rightarrow> t | _ \<Rightarrow> 0)"

definition views_and_vph :: "env \<Rightarrow> json \<Rightarrow> real \<Rightarrow> py_error + int \<times> pyfloat" where
  "views_and_vph E stats hs =
     (case py_get stats ''viewCount'' (JInt 0) of Inl e \<Rightarrow> Inl e | Inr vc \<Rightarrow>
      case py_int E vc of Inl e \<Rightarrow> Inl e | Inr v \<Rightarrow>
      case py_truediv v hs of Inl e \<Rightarrow> Inl e | Inr vph \<Rightarrow> Inr (v, vph))"

definition duration_seconds :: "env \<Rightarrow> json \<Rightarrow> py_error + int" where
  "duration_seconds E content =
     (case py_get content ''duration'' (JStr ''PT0S'') of Inl e \<Rightarrow> Inl e | Inr d \<Rightarrow>
        iso8601_to_seconds E d)"

definition compute_metrics :: "env \<Rightarrow> real \<Rightarrow> json \<Rightarrow> py_error + metrics" where
  "compute_metrics E now detail =
     (case detail_parts detail of Inl e \<Rightarrow> Inl e | Inr (snip, stats, content) \<Rightarrow>
      case parse_published E snip of Inl e \<Rightarrow> Inl e | Inr published_dt \<Rightarrow>
      case elapsed_hours now published_dt of Inl e \<Rightarrow> Inl e | Inr hs \<Rightarrow>
      case views_and_vph E stats hs of Inl e \<Rightarrow> Inl e | Inr (v, vph) \<Rightarrow>
      case duration_seconds E content of Inl e \<Rightarrow> Inl e | Inr dur_sec \<Rightarrow>
        Inr \<lparr> publishedAt = timestamp_of published_dt, views = v, viewsPerHour = vph,
              durationSec = dur_sec \<rparr>)"

section \<open>The run\<close>

text \<open>
  The widget values the run reads from \<open>st.session_state\<close>. The run-mode select box has
  three options: channel, keyword, both. The fields from \<open>cfg_form_factor\<close> on are
  read by the row loop only; the labels of their select boxes are kept as strings.
\<close>

datatype run_mode = Channel_mode | Keyword_mode | Both_modes

record config =
  cfg_api_key :: string
  cfg_run_mode :: run_mode
  cfg_days_back :: int
  cfg_per_channel_max :: int
  cfg_per_keyword_max :: int
  cfg_wait_minutes :: real
  cfg_target_regions :: "string list"
  cfg_effective_keywords :: "string list"
  cfg_effective_lang :: string
  cfg_channels_input :: string
  cfg_form_factor :: string
  cfg_shorts_sec :: int
  cfg_min_vph :: real
  cfg_ignore_filters :: bool
  cfg_kw_strict_on :: bool
  cfg_kw_strict_mode :: string

text \<open>\<open>txt.split(",")\<close> and \<open>part.split()\<close>, with the part read so far as accumulator.\<close>

fun split_comma :: "string \<Rightarrow> string \<Rightarrow> string list" where
  "split_comma [] cur = [cur]"
| "split_comma (c # cs) cur =
     (if c = CHR '','' then cur # split_comma cs [] else split_comma cs (cur @ [c]))"

fun split_ws :: "string \<Rightarrow> string \<Rightarrow> string list" where
  "split_ws [] cur = (if cur = [] then [] else [cur])"
| "split_ws (c # cs) cur =
     (if is_space c then (if cur = [] then [] else [cur]) @ split_ws cs []
      else split_ws cs (cur @ [c]))"

text \<open>
  \<^verbatim>\<open>
  def parse_list_field_inner(txt: Optional[str]) -> List[str]:
      if not txt: return []
      return [p.strip() for part in txt.split(",") for p in part.split() if p.strip()]

  input_channels = parse_list_field_inner(st.session_state.get("channels_input",""))
                   if run_mode in (channel, both) else []
  \<close>
\<close>

definition parse_list_field_inner :: "string \<Rightarrow> string list" where
  "parse_list_field_inner txt =
     (if txt = [] then []
      else map py_strip (filter (\<lambda>p. py_strip p \<noteq> [])
             (concat (map (\<lambda>part. split_ws part []) (split_comma txt [])))))"

definition input_channels :: "config \<Rightarrow> string list" where
  "input_channels cfg =
     (if cfg_run_mode cfg \<in> {Channel_mode, Both_modes}
      then parse_list_field_inner (cfg_channels_input cfg) else [])"

text \<open>
  \<^verbatim>\<open>
  items = data.get("items", [])
  ch_id = items[0]["snippet"].get("channelId") if items else None
  if not ch_id and items: ch_id = items[0]["id"].get("channelId")
  \<close>
\<close>

definition channel_id_of :: "json \<Rightarrow> py_error + json" where
  "channel_id_of items =
     (if truthy items then
        case py_first items of Inl e \<Rightarrow> Inl e | Inr it \<Rightarrow>
        case py_item it ''snippet'' of Inl e \<Rightarrow> Inl e | Inr sn \<Rightarrow>
        case py_get sn ''channelId'' JNull of Inl e \<Rightarrow> Inl e | Inr ch \<Rightarrow>
        if \<not> truthy ch then
          (case py_item it ''id'' of Inl e \<Rightarrow> Inl e | Inr i \<Rightarrow> py_get i ''channelId'' JNull)
        else Inr ch
      else Inr JNull)"

text \<open>
  \<^verbatim>\<open>
  def resolve_channel_ids(lst: List[str]) -> List[str]:
      out: List[str] = []
      for token in lst:
          if token.startswith("@"):
              data = yt_get("search", {"part":"snippet", "type":"channel", "q": token,
                                       "maxResults": 1}, api_key, wait_minutes=wait_minutes)
              ... ch_id ...
              if ch_id: out.append(ch_id)
          else:
              out.append(token)
      return out
  \<close>
\<close>

fun resolve_channel_ids ::
  "env \<Rightarrow> string \<Rightarrow> real \<Rightarrow> string list \<Rightarrow> json list \<Rightarrow> 'row session
   \<Rightarrow> (py_error + json list) \<times> 'row session" where
  "resolve_channel_ids E api_key wait_minutes [] out s = (Inr out, s)"
| "resolve_channel_ids E api_key wait_minutes (token # rest) out s =
     (if prefix ''@'' token then
        case yt_get E ''search''
               [(''part'', JStr ''snippet''), (''type'', JStr ''channel''),
                (''q'', JStr token), (''maxResults'', JInt 1)] api_key wait_minutes 2 s of
          (Inl e, s1) \<Rightarrow> (Inl e, s1)
        | (Inr data, s1) \<Rightarrow>
            (case py_get data ''items'' (JArr []) of Inl e \<Rightarrow> (Inl e, s1) | Inr items \<Rightarrow>
             case channel_id_of items of Inl e \<Rightarrow> (Inl e, s1) | Inr ch_id \<Rightarrow>
               resolve_channel_ids E api_key wait_minutes rest
                 (if truthy ch_id then out @ [ch_id] else out) s1)
      else resolve_channel_ids E api_key wait_minutes rest (out @ [JStr token]) s)"

text \<open>
  \<open>collected_ids.update(ids)\<close> on the set of candidates. The set is the list of its
  elements in the order they came in (Python leaves the order of a set open).
\<close>

definition set_update :: "json list \<Rightarrow> json list \<Rightarrow> py_error + json list" where
  "set_update collected ids =
     (if list_all hashable ids
      then Inr (fold (\<lambda>x acc. if x \<in> set acc then acc else acc @ [x]) ids collected)
      else Inl TypeError)"

text \<open>
  The two fan-out loops, over regions and then channels or keywords. A job is one call of
  the walker: query, channel, region, cap and order.
  \<^verbatim>\<open>
  if run_mode in (channel, both):
      for region in target_regions:
          for ch in channels:
              ids = fetch_videos_by_search(api_key, channel_id=ch, region_code=region,
                  relevance_language=effective_lang, published_after=published_after,
                  max_results=per_channel_max, order="date", wait_minutes=wait_minutes)
              collected_ids.update(ids); time.sleep(0.02)
  if run_mode in (keyword, both):
      for region in target_regions:
          for kw in base_keywords:
              if not kw: continue
              ids = fetch_videos_by_search(api_key, query=kw, ...,
                  max_results=per_keyword_max, order="viewCount", ...)
              collected_ids.update(ids); time.sleep(0.02)
  \<close>
\<close>

type_synonym job = "json \<times> json \<times> string \<times> int \<times> string"

definition channel_jobs :: "config \<Rightarrow> json list \<Rightarrow> job list" where
  "channel_jobs cfg channels =
     (if cfg_run_mode cfg \<in> {Channel_mode, Both_modes}
      then concat (map (\<lambda>region.
             map (\<lambda>ch. (JNull, ch, region, cfg_per_channel_max cfg, ''date'')) channels)
             (cfg_target_regions cfg))
      else [])"

definition keyword_jobs :: "config \<Rightarrow> job list" where
  "keyword_jobs cfg =
     (if cfg_run_mode cfg \<in> {Keyword_mode, Both_modes}
      then concat (map (\<lambda>region.
             map (\<lambda>kw. (JStr kw, JNull, region, cfg_per_keyword_max cfg, ''viewCount''))
               (filter (\<lambda>kw. kw \<noteq> []) (cfg_effective_keywords cfg)))
             (cfg_target_regions cfg))
      else [])"

fun walk_all ::
  "nat \<Rightarrow> env \<Rightarrow> config \<Rightarrow> json \<Rightarrow> job list \<Rightarrow> json list \<Rightarrow> 'row session
   \<Rightarrow> (py_error + json list) option \<times> 'row session" where
  "walk_all fuel E cfg published_after [] collected s = (Some (Inr collected), s)"
| "walk_all fuel E cfg published_after ((query, channel_id, region, cap, order) # rest)
      collected s =
     (case fetch_videos_by_search fuel E (cfg_api_key cfg) query channel_id (JStr region)
             (JStr (cfg_effective_lang cfg)) published_after cap order
             (cfg_wait_minutes cfg) s of
        (None, s1) \<Rightarrow> (None, s1)
      | (Some (Inl e), s1) \<Rightarrow> (Some (Inl e), s1)
      | (Some (Inr ids), s1) \<Rightarrow>
          (case set_update collected ids of
             Inl e \<Rightarrow> (Some (Inl e), s1)
           | Inr collected1 \<Rightarrow> walk_all fuel E cfg published_after rest collected1 s1))"

text \<open>\<open>key in v\<close> on a parsed value.\<close>

fun py_has :: "string \<Rightarrow> json \<Rightarrow> py_error + bool" where
  "py_has key (JObj kvs) = Inr (map_of kvs key \<noteq> None)"
| "py_has key (JArr xs) = Inr (JStr key \<in> set xs)"
| "py_has key (JStr t) = Inr (py_in key t)"
| "py_has key _ = Inl TypeError"

text \<open>
  \<open>channel_ids = {v["snippet"]["channelId"] for v in details.values() if "snippet" in v}\<close>
\<close>

fun channel_ids_of :: "json list \<Rightarrow> json list \<Rightarrow> py_error + json list" where
  "channel_ids_of [] acc = Inr acc"
| "channel_ids_of (v # vs) acc =
     (case py_has ''snippet'' v of Inl e \<Rightarrow> Inl e | Inr has \<Rightarrow>
      if has then
        case py_item v ''snippet'' of Inl e \<Rightarrow> Inl e | Inr sn \<Rightarrow>
        case py_item sn ''channelId'' of Inl e \<Rightarrow> Inl e | Inr ch \<Rightarrow>
        if hashable ch then channel_ids_of vs (if ch \<in> set acc then acc else acc @ [ch])
        else Inl TypeError
      else channel_ids_of vs acc)"

text \<open>
  How a run ends: it reaches the assignment of \<open>results_df\<close>, it is stopped by
  \<open>st.error(...); st.stop()\<close> on a missing credential or on empty inputs, an exception
  leaves it, or a walk has not ended within the fuel.
\<close>

datatype stop_reason = MissingCredential | ConfigurationError

datatype outcome = Completed | Stopped stop_reason | Raised py_error | Out_of_fuel

text \<open>
  The block under \<open>with st.spinner\<close>. The loop that builds the rows from the details and
  the subscriber map (metrics, filters, formatting, on floats and dates) reads and writes
  no session state; it is the parameter \<open>rows_of\<close>, which returns the rows or the
  exception raised. The run ends with
  \<^verbatim>\<open>
  st.session_state["results_df"] = results_df
  st.session_state["payload_cache"] = []
  \<close>
\<close>

definition collect ::
  "nat \<Rightarrow> env \<Rightarrow> (config \<Rightarrow> (json \<times> json) list \<Rightarrow> (json \<times> int) list \<Rightarrow> py_error + 'row list)
   \<Rightarrow> config \<Rightarrow> 'row session \<Rightarrow> outcome \<times> 'row session" where
  "collect fuel E rows_of cfg s =
     (let published_after = JStr (iso_days_ago E (cfg_days_back cfg) @ ''Z'') in
      case (if cfg_run_mode cfg \<in> {Channel_mode, Both_modes}
            then resolve_channel_ids E (cfg_api_key cfg) (cfg_wait_minutes cfg)
                   (input_channels cfg) [] s
            else (Inr [], s)) of
        (Inl e, s1) \<Rightarrow> (Raised e, s1)
      | (Inr channels, s1) \<Rightarrow>
      case walk_all fuel E cfg published_after (channel_jobs cfg channels) [] s1 of
        (None, s2) \<Rightarrow> (Out_of_fuel, s2)
      | (Some (Inl e), s2) \<Rightarrow> (Raised e, s2)
      | (Some (Inr collected1), s2) \<Rightarrow>
      case walk_all fuel E cfg published_after (keyword_jobs cfg) collected1 s2 of
        (None, s3) \<Rightarrow> (Out_of_fuel, s3)
      | (Some (Inl e), s3) \<Rightarrow> (Raised e, s3)
      | (Some (Inr collected_ids), s3) \<Rightarrow>
      case fetch_video_details E (cfg_api_key cfg) collected_ids (cfg_wait_minutes cfg) s3 of
        (Inl e, s4) \<Rightarrow> (Raised e, s4)
      | (Inr details, s4) \<Rightarrow>
      case channel_ids_of (map snd details) [] of
        Inl e \<Rightarrow> (Raised e, s4)
      | Inr channel_ids \<Rightarrow>
      case (if channel_ids \<noteq> []
            then fetch_channel_subs E (cfg_api_key cfg) channel_ids (cfg_wait_minutes cfg) s4
            else (Inr [], s4)) of
        (Inl e, s5) \<Rightarrow> (Raised e, s5)
      | (Inr subs_map, s5) \<Rightarrow>
      case rows_of cfg details subs_map of
        Inl e \<Rightarrow> (Raised e, s5)
      | Inr rows \<Rightarrow> (Completed, s5\<lparr>results_df := rows, payload_cache := []\<rparr>))"

text \<open>
  \<^verbatim>\<open>
  if 'run' in locals() and run:
      api_key = st.session_state.get("api_key", "")
      if not api_key:
          st.error(...); st.stop()
      ...
      base_keywords = st.session_state.get("effective_keywords", [])
      input_channels = ...
      if len(input_channels) == 0 and len(base_keywords) == 0:
          st.error(...); st.stop()
      with st.spinner(...): ...
  \<close>
\<close>

definition run ::
  "nat \<Rightarrow> env \<Rightarrow> (config \<Rightarrow> (json \<times> json) list \<Rightarrow> (json \<times> int) list \<Rightarrow> py_error + 'row list)
   \<Rightarrow> config \<Rightarrow> 'row session \<Rightarrow> outcome \<times> 'row session" where
  "run fuel E rows_of cfg s =
     (if cfg_api_key cfg = [] then (Stopped MissingCredential, s)
      else if length (input_channels cfg) = 0 \<and> length (cfg_effective_keywords cfg) = 0
      then (Stopped ConfigurationError, s)
      else collect fuel E rows_of cfg s)"

subsection \<open>Published results\<close>

text \<open>Two sessions publish the same results: same result set, same payload cache.\<close>

definition same_published :: "'row session \<Rightarrow> 'row session \<Rightarrow> bool" where
  "same_published s s' \<longleftrightarrow>
     results_df s' = results_df s \<and> payload_cache s' = payload_cache s"

section \<open>Sample inputs\<close>

text \<open>
  Concrete responses, environments, configurations and sessions on which the definitions
  are evaluated further down: a quota error, an empty page, a page with a repeated
  identifier, a walk of two pages, a server that answers 404 to everything.
\<close>

definition quota_resp :: response where
  "quota_resp =
     \<lparr> status_code = 403, resp_text = ''quota exhausted'',
       resp_json = Some (JObj [(''error'', JObj
         [(''errors'', JArr [JObj [(''reason'', JStr ''quotaExceeded'')]]),
          (''message'', JStr ''Daily Limit Exceeded'')])]),
       url = ''https://www.googleapis.com/youtube/v3/search'' \<rparr>"

definition ok_resp :: response where
  "ok_resp =
     \<lparr> status_code = 200, resp_text = ''{}'', resp_json = Some (JObj []),
       url = ''https://www.googleapis.com/youtube/v3/search'' \<rparr>"

definition always_quota :: env where
  "always_quota =
     \<lparr> http = (\<lambda>n. Response quota_resp), clock = (\<lambda>n. 0), str_of = (\<lambda>v. []),
       int_of = (\<lambda>v. None), iso_days_ago = (\<lambda>d. ''2024-01-01T00:00:00''),
       fromisoformat = (\<lambda>t. Aware 0) \<rparr>"

definition quota_then_ok :: env where
  "quota_then_ok =
     \<lparr> http = (\<lambda>n. if n = 0 then Response quota_resp else Response ok_resp),
       clock = (\<lambda>n. 0), str_of = (\<lambda>v. []),
       int_of = (\<lambda>v. None), iso_days_ago = (\<lambda>d. ''2024-01-01T00:00:00''),
       fromisoformat = (\<lambda>t. Aware 0) \<rparr>"

definition always_ok :: env where
  "always_ok =
     \<lparr> http = (\<lambda>n. Response ok_resp), clock = (\<lambda>n. 0), str_of = (\<lambda>v. []),
       int_of = (\<lambda>v. None), iso_days_ago = (\<lambda>d. ''2024-01-01T00:00:00''),
       fromisoformat = (\<lambda>t. Aware 0) \<rparr>"

definition video_item :: "string \<Rightarrow> json" where
  "video_item vid =
     JObj [(''id'', JObj [(''kind'', JStr ''youtube#video''), (''videoId'', JStr vid)])]"

definition page_resp :: "string list \<Rightarrow> json \<Rightarrow> response" where
  "page_resp vids next_token =
     \<lparr> status_code = 200, resp_text = [],
       resp_json = Some (JObj [(''items'', JArr (map video_item vids)),
                               (''nextPageToken'', next_token)]),
       url = ''https://www.googleapis.com/youtube/v3/search'' \<rparr>"

definition dup_env :: env where
  "dup_env =
     \<lparr> http = (\<lambda>n. Response (page_resp [''a'', ''a''] JNull)),
       clock = (\<lambda>n. 0), str_of = (\<lambda>v. []),
       int_of = (\<lambda>v. None), iso_days_ago = (\<lambda>d. ''2024-01-01T00:00:00''),
       fromisoformat = (\<lambda>t. Aware 0) \<rparr>"

definition two_pages :: env where
  "two_pages =
     \<lparr> http = (\<lambda>n. if n = 0 then Response (page_resp [''a'', ''b''] (JStr ''t2''))
                      else Response (page_resp [''c'', ''d''] JNull)),
       clock = (\<lambda>n. 0), str_of = (\<lambda>v. []),
       int_of = (\<lambda>v. None), iso_days_ago = (\<lambda>d. ''2024-01-01T00:00:00''),
       fromisoformat = (\<lambda>t. Aware 0) \<rparr>"

definition sample_cfg :: config where
  "sample_cfg =
     \<lparr> cfg_api_key = ''k'', cfg_run_mode = Both_modes, cfg_days_back = 180,
       cfg_per_channel_max = 200, cfg_per_keyword_max = 200, cfg_wait_minutes = 0,
       cfg_target_regions = [''KR''], cfg_effective_keywords = [''cats''],
       cfg_effective_lang = ''ko'', cfg_channels_input = [],
       cfg_form_factor = ''both'', cfg_shorts_sec = 60, cfg_min_vph = 0,
       cfg_ignore_filters = False, cfg_kw_strict_on = True, cfg_kw_strict_mode = ''any'' \<rparr>"


definition leftover_cfg :: config where
  "leftover_cfg = sample_cfg\<lparr>cfg_run_mode := Channel_mode\<rparr>"

definition sample_rows ::
  "config \<Rightarrow> (json \<times> json) list \<Rightarrow> (json \<times> int) list \<Rightarrow> py_error + json list" where
  "sample_rows cfg details subs_map = Inr [JStr ''new'']"

definition old_session :: "json session" where
  "old_session = session_init\<lparr>results_df := [JStr ''old''], payload_cache := [JStr ''old'']\<rparr>"

definition not_found_resp :: response where
  "not_found_resp =
     \<lparr> status_code = 404, resp_text = ''Not Found'', resp_json = None,
       url = ''https://www.googleapis.com/youtube/v3/search'' \<rparr>"

definition always_404 :: env where
  "always_404 =
     \<lparr> http = (\<lambda>n. Response not_found_resp), clock = (\<lambda>n. 0), str_of = (\<lambda>v. []),
       int_of = (\<lambda>v. None), iso_days_ago = (\<lambda>d. ''2024-01-01T00:00:00''),
       fromisoformat = (\<lambda>t. Aware 0) \<rparr>"

text \<open>
  For the metric calculator: \<open>int()\<close> on the strings of digits, a detail entry whose
  view count is a parameter, published at timestamp 0, and two view counts of 304 and
  310 digits.
\<close>

definition digits_value :: "string \<Rightarrow> int" where
  "digits_value ds = foldl (\<lambda>acc c. 10 * acc + (int (of_char c) - 48)) 0 ds"

definition sample_int_of :: "string \<Rightarrow> int option" where
  "sample_int_of t = (if t \<noteq> [] \<and> list_all is_digit t then Some (digits_value t) else None)"

definition metrics_env :: env where
  "metrics_env =
     \<lparr> http = (\<lambda>n. Response ok_resp), clock = (\<lambda>n. 0), str_of = (\<lambda>v. []),
       int_of = sample_int_of, iso_days_ago = (\<lambda>d. ''2024-01-01T00:00:00''),
       fromisoformat = (\<lambda>t. Aware 0) \<rparr>"

definition sample_detail :: "string \<Rightarrow> json" where
  "sample_detail view_count =
     JObj [(''id'', JStr ''v1''),
           (''snippet'', JObj [(''publishedAt'', JStr ''2024-01-01T00:00:00Z'')]),
           (''statistics'', JObj [(''viewCount'', JStr view_count)]),
           (''contentDetails'', JObj [(''duration'', JStr ''PT1H2M3S'')])]"

definition huge_views :: int where
  "huge_views = 10 ^ 303"

definition huger_views :: int where
  "huger_views = 10 ^ 309"

section \<open>Facts about the keyword filter\<close>

lemma dropWhile_all: "(\<forall>x \<in> set (dropWhile P k). P x) \<longleftrightarrow> (\<forall>c \<in> set k. P c)"
  by (induction k) auto

lemma py_strip_blank: "py_strip k = [] \<longleftrightarrow> (\<forall>c \<in> set k. is_space c)"
  by (simp add: py_strip_def dropWhile_eq_Nil_conv dropWhile_all)

lemma py_lower_examples:
  "py_lower ''Hot NEWS today'' = ''hot news today''"
  "py_lower ''news'' = ''news''" "py_lower ''cat'' = ''cat''"
  "py_lower ''abc'' = ''abc''" "py_lower '' '' = '' ''" "py_lower ''a b c'' = ''a b c''"
  by code_simp+

text \<open>
  C6 (amended). An empty keyword list accepts every text in every mode. For a
  non-empty list, keywords that strip to the empty string are left out; in mode
  \<open>all\<close> the text is accepted exactly when every remaining normalized keyword is a
  substring of the normalized text (so a text that lacks one of them is rejected), and in
  any other mode exactly when at least one remaining normalized keyword is.
\<close>

theorem contains_keywords_nonblank:
  "contains_keywords text [] mode
   \<and> (keywords \<noteq> [] \<longrightarrow>
        contains_keywords text keywords ''all'' =
          (\<forall>k \<in> set keywords. py_strip k \<noteq> [] \<longrightarrow>
              py_in (normalize_text k) (normalize_text text)))
   \<and> (keywords \<noteq> [] \<and> mode \<noteq> ''all'' \<longrightarrow>
        contains_keywords text keywords mode =
          (\<exists>k \<in> set keywords. py_strip k \<noteq> [] \<and>
              py_in (normalize_text k) (normalize_text text)))"
  by (auto simp: contains_keywords_def list_all_iff list_ex_iff)

theorem contains_keywords_nonblank_witness:
  "contains_keywords ''Hot NEWS today'' [] ''any''
   \<and> \<not> contains_keywords ''Hot NEWS today'' [''news'', ''cat''] ''all''
   \<and> contains_keywords ''Hot NEWS today'' [''news'', ''cat''] ''any''"
  using contains_keywords_nonblank [of "''Hot NEWS today''" "''any''" "[''news'', ''cat'']"]
  by (simp add: normalize_text_def py_lower_examples py_strip_def is_space_def
      py_in_def sublist_code(3))

text \<open>
  A keyword of one blank: a text without a blank lacks it and is accepted in mode
  \<open>all\<close>; a text with blanks contains it and is rejected in mode \<open>any\<close>.
\<close>

theorem contains_keywords_blank_all_counterexample:
  "['' ''] \<noteq> []
   \<and> \<not> py_in (normalize_text '' '') (normalize_text ''abc'')
   \<and> contains_keywords ''abc'' ['' ''] ''all''
   \<and> py_in (normalize_text '' '') (normalize_text ''a b c'')
   \<and> \<not> contains_keywords ''a b c'' ['' ''] ''any''"
  by (simp add: contains_keywords_def normalize_text_def py_lower_examples
      py_strip_def is_space_def py_in_def sublist_code(3))

text \<open>
  C10. For a non-empty keyword list whose elements all consist of whitespace only,
  mode \<open>any\<close> rejects every text and mode \<open>all\<close> accepts every text.
\<close>

theorem contains_keywords_all_blank:
  assumes "keywords \<noteq> []" and "\<forall>k \<in> set keywords. \<forall>c \<in> set k. is_space c"
  shows "\<not> contains_keywords text keywords ''any'' \<and> contains_keywords text keywords ''all''"
proof -
  from assms(2) have "filter (\<lambda>k. py_strip k \<noteq> []) keywords = []"
    by (simp add: filter_empty_conv py_strip_blank)
  with assms(1) show ?thesis
    by (simp add: contains_keywords_def)
qed

theorem contains_keywords_all_blank_witness:
  "\<not> contains_keywords ''some title'' [''  '', ''''] ''any''
   \<and> contains_keywords ''some title'' [''  '', ''''] ''all''"
  using contains_keywords_all_blank [of "[''  '', '''']" "''some title''"]
  by (simp add: is_space_def)

section \<open>Facts about the quota ledger\<close>

lemma quota_units_kinds:
  "quota_units_for ''search'' = 100" "quota_units_for ''videos'' = 1"
  "quota_units_for ''channels'' = 1"
  by (simp_all add: quota_units_for_def)

lemma ledger_shape:
  assumes "map fst (q_calls s) = [''search'', ''videos'', ''channels'']"
  obtains a b c where "q_calls s = [(''search'', a), (''videos'', b), (''channels'', c)]"
proof -
  from assms obtain x y z where "q_calls s = [x, y, z]" by (auto simp: map_eq_Cons_conv)
  with assms have "q_calls s = [(''search'', snd x), (''videos'', snd y), (''channels'', snd z)]"
    by (auto simp: prod_eq_iff)
  then show ?thesis using that by blast
qed

lemma record_quota_ok:
  assumes "ledger_ok s"
  shows "\<exists>s'. record_quota e path now s = Inr s' \<and> ledger_ok s'
          \<and> q_log s' = q_log s @ [(e, quota_units_for e, path, now)]
          \<and> q_units s' = q_units s + quota_units_for e"
proof -
  from assms obtain a b c where q: "q_calls s = [(''search'', a), (''videos'', b), (''channels'', c)]"
    and u: "q_units s = (\<Sum>(k, n) \<leftarrow> q_calls s. n * quota_units_for k)"
    unfolding ledger_ok_def by (auto elim: ledger_shape)
  show ?thesis
    using q u
    by (simp add: record_quota_def bump_call_def ledger_ok_def quota_units_kinds Let_def)
       (simp add: quota_units_for_def)
qed

lemma record_calls_ok:
  "ledger_ok s \<Longrightarrow> \<exists>s'. record_calls cs s = Inr s' \<and> ledger_ok s'
      \<and> length (q_log s') = length (q_log s) + length cs"
proof (induction cs arbitrary: s)
  case Nil
  then show ?case by simp
next
  case (Cons c cs)
  obtain e path now where c: "c = (e, path, now)" by (cases c)
  from record_quota_ok [OF Cons.prems, of e path now] obtain s1 where
    s1: "record_quota e path now s = Inr s1" "ledger_ok s1"
      "q_log s1 = q_log s @ [(e, quota_units_for e, path, now)]" by blast
  from Cons.IH [OF s1(2)] s1 c show ?case by auto
qed

lemma ledger_ok_init: "ledger_ok session_init"
  by (simp add: ledger_ok_def session_init_def quota_units_kinds)

lemma record_kind_step:
  assumes "ledger_ok s" "k \<in> set [''search'', ''videos'', ''channels'']"
  shows "\<exists>s' n. record_quota k path now s = Inr s'
          \<and> map_of (q_calls s) k = Some n
          \<and> map_of (q_calls s') = (map_of (q_calls s))(k \<mapsto> n + 1)
          \<and> q_units s' = q_units s + quota_units_for k
          \<and> q_log s' = q_log s @ [(k, quota_units_for k, path, now)]"
proof -
  from assms obtain a b c where q: "q_calls s = [(''search'', a), (''videos'', b), (''channels'', c)]"
    unfolding ledger_ok_def by (auto elim: ledger_shape)
  show ?thesis
    using q assms(2)
    by (auto simp add: record_quota_def bump_call_def quota_units_kinds Let_def fun_eq_iff)
qed


text \<open>
  C2. After any sequence of recorded calls, starting from the initial session, the
  unit total equals the sum over the endpoint kinds of call count times unit cost, the
  costs being 100 for search and 1 for videos and for channels; recording one more call of
  a kind adds one to that kind's counter and to no other, adds the kind's cost to the unit
  total and appends one log entry.
\<close>

theorem quota_ledger_invariant:
  "\<exists>s. record_calls cs session_init = Inr s
     \<and> map fst (q_calls s) = [''search'', ''videos'', ''channels'']
     \<and> q_units s = (\<Sum>(k, n) \<leftarrow> q_calls s. n * quota_units_for k)
     \<and> quota_units_for ''search'' = 100
     \<and> quota_units_for ''videos'' = 1
     \<and> quota_units_for ''channels'' = 1
     \<and> length (q_log s) = length cs
     \<and> (\<forall>k \<in> set [''search'', ''videos'', ''channels''].
          \<exists>s' n. record_quota k path now s = Inr s'
            \<and> map_of (q_calls s) k = Some n
            \<and> map_of (q_calls s') = (map_of (q_calls s))(k \<mapsto> n + 1)
            \<and> q_units s' = q_units s + quota_units_for k
            \<and> q_log s' = q_log s @ [(k, quota_units_for k, path, now)])"
proof -
  from record_calls_ok [OF ledger_ok_init, of cs] obtain s :: "'a session" where
    s: "record_calls cs session_init = Inr s" "ledger_ok s"
      "length (q_log s) = length (q_log (session_init :: 'a session)) + length cs"
    by blast
  have "length (q_log s) = length cs"
    using s(3) by (simp add: session_init_def)
  moreover have "\<forall>k \<in> set [''search'', ''videos'', ''channels''].
          \<exists>s' n. record_quota k path now s = Inr s'
            \<and> map_of (q_calls s) k = Some n
            \<and> map_of (q_calls s') = (map_of (q_calls s))(k \<mapsto> n + 1)
            \<and> q_units s' = q_units s + quota_units_for k
            \<and> q_log s' = q_log s @ [(k, quota_units_for k, path, now)]"
    using record_kind_step [OF s(2)] by blast
  ultimately show ?thesis
    using s(1,2) unfolding ledger_ok_def by (intro exI [of _ s]) (simp add: quota_units_kinds)
qed

theorem quota_ledger_invariant_witness:
  "\<exists>s. record_calls [(''search'', ''u1'', 0), (''videos'', ''u2'', 1), (''search'', ''u3'', 2)]
          (session_init :: unit session) = Inr s
     \<and> q_units s = 201
     \<and> q_calls s = [(''search'', 2), (''videos'', 1), (''channels'', 0)]
     \<and> (\<exists>s'. record_quota ''channels'' ''u4'' 3 s = Inr s' \<and> q_units s' = 202
           \<and> length (q_log s') = 4)"
  using quota_ledger_invariant
    [of "[(''search'', ''u1'', 0), (''videos'', ''u2'', 1), (''search'', ''u3'', 2)]"
        "''u4''" 3, where ?'a = unit]
  by (simp add: record_quota_def bump_call_def quota_units_for_def session_init_def)

section \<open>Facts about the gateway\<close>

declare yt_get_loop.simps [simp del]

lemma bump_call_fields:
  "bump_call k s = Inr s' \<Longrightarrow>
     sent s' = sent s \<and> calls s' = calls s \<and> results_df s' = results_df s
     \<and> payload_cache s' = payload_cache s"
  by (auto simp: bump_call_def split: option.splits)

lemma record_quota_fields:
  "record_quota e p now s = Inr s' \<Longrightarrow>
     sent s' = sent s \<and> calls s' = calls s \<and> results_df s' = results_df s
     \<and> payload_cache s' = payload_cache s"
  by (auto simp: record_quota_def Let_def split: if_splits sum.splits dest: bump_call_fields)

lemma yt_get_loop_sent:
  "\<exists>k. 1 \<le> k \<and> int k \<le> 1 + max 0 (mr - tries)
     \<and> sent (snd (yt_get_loop E ep ps w mr tries s)) = sent s @ replicate k (ep, ps)"
proof (induction E ep ps w mr tries s rule: yt_get_loop.induct)
  case (1 E ep ps w mr tries s)
  show ?case
  proof (cases "http E (length (sent s))")
    case Transport_failure
    then show ?thesis
      by (subst yt_get_loop.simps) (auto intro!: exI [of _ 1])
  next
    case (Response r)
    show ?thesis
    proof (cases "status_code r = 200")
      case True
      with Response show ?thesis
        by (subst yt_get_loop.simps)
           (auto intro!: exI [of _ 1] simp: Let_def split: sum.splits option.splits
             dest!: record_quota_fields)
    next
      case False
      show ?thesis
      proof (cases "err_reason r")
        case (Inl e)
        with Response False show ?thesis
          by (subst yt_get_loop.simps) (auto intro!: exI [of _ 1])
      next
        case (Inr reason)
        show ?thesis
        proof (cases "status_code r \<in> {403, 429} \<and> is_quota_reason E reason
                       \<and> w > 0 \<and> tries + 1 \<le> mr")
          case True
          let ?s2 = "s\<lparr>sent := sent s @ [(ep, ps)], api_waiting := False,
                         api_wait_reason := ep @ '': '' @ py_str E reason\<rparr>"
          from "1.IH" [OF refl refl Response False Inr] True
          obtain k where k: "1 \<le> k" "int k \<le> 1 + max 0 (mr - (tries + 1))"
            "sent (snd (yt_get_loop E ep ps w mr (tries + 1) ?s2)) = sent ?s2 @ replicate k (ep, ps)"
            by auto
          have "yt_get_loop E ep ps w mr tries s = yt_get_loop E ep ps w mr (tries + 1) ?s2"
            using Response False Inr True by (subst yt_get_loop.simps) (simp add: Let_def)
          with k True show ?thesis
            by (intro exI [of _ "Suc k"]) (auto simp: replicate_app_Cons_same)
        next
          case no: False
          with Response False Inr show ?thesis
            by (subst yt_get_loop.simps) (auto intro!: exI [of _ 1])
        qed
      qed
    qed
  qed
qed


lemma yt_get_loop_fail_step:
  assumes "http E (length (sent s)) = Response r" and "status_code r \<noteq> 200"
    and "err_reason r = Inr reason"
  shows "yt_get_loop E ep ps w mr tries s =
     (if status_code r \<in> {403, 429} \<and> is_quota_reason E reason \<and> 0 < w \<and> tries < mr
      then yt_get_loop E ep ps w mr (tries + 1)
             (s\<lparr>sent := sent s @ [(ep, ps)], api_waiting := False,
                 api_wait_reason := ep @ '': '' @ py_str E reason\<rparr>)
      else (Inl (RuntimeError (status_code r) (resp_text r)), s\<lparr>sent := sent s @ [(ep, ps)]\<rparr>))"
  using assms by (subst yt_get_loop.simps) (auto simp add: Let_def)

lemma yt_get_loop_fail_raise:
  assumes "http E (length (sent s)) = Response r" and "status_code r \<noteq> 200"
    and "err_reason r = Inl e"
  shows "yt_get_loop E ep ps w mr tries s = (Inl e, s\<lparr>sent := sent s @ [(ep, ps)]\<rparr>)"
  using assms by (subst yt_get_loop.simps) (simp add: Let_def)

text \<open>
  C1 (amended). Let a request of the gateway be answered by a response \<open>r\<close> whose
  status is not 200, when \<open>tries\<close> retries have been performed so far. A status 404
  is never retried. When the error reason can be extracted from the body, the request is
  sent again if and only if the status is 403 or 429, the lower-cased reason contains one
  of the tokens quota, daily, rate, exceed, \<open>wait_minutes\<close> is positive and fewer than
  \<open>max_retries\<close> retries have been performed so far; otherwise the call raises the error
  that carries the status code and the raw body, after this one request. A call never
  sends more than \<open>1 + max_retries\<close> requests.
\<close>

theorem yt_get_retry_policy:
  assumes "http E (length (sent s)) = Response r" and "status_code r \<noteq> 200"
  shows "(status_code r = 404 \<longrightarrow>
            length (sent (snd (yt_get_loop E ep ps w mr tries s))) = Suc (length (sent s)))
       \<and> (\<forall>reason. err_reason r = Inr reason \<longrightarrow>
            (Suc (length (sent s)) < length (sent (snd (yt_get_loop E ep ps w mr tries s)))
              \<longleftrightarrow> status_code r \<in> {403, 429} \<and> is_quota_reason E reason \<and> 0 < w
                   \<and> tries < mr)
            \<and> (\<not> (status_code r \<in> {403, 429} \<and> is_quota_reason E reason \<and> 0 < w
                     \<and> tries < mr) \<longrightarrow>
                 yt_get_loop E ep ps w mr tries s =
                   (Inl (RuntimeError (status_code r) (resp_text r)),
                    s\<lparr>sent := sent s @ [(ep, ps)]\<rparr>)))
       \<and> int (length (sent (snd (yt_get_loop E ep ps w mr tries s))))
            \<le> int (length (sent s)) + 1 + max 0 (mr - tries)"
proof (intro conjI allI impI)
  assume "status_code r = 404"
  then show "length (sent (snd (yt_get_loop E ep ps w mr tries s))) = Suc (length (sent s))"
    using assms
    by (cases "err_reason r") (simp_all add: yt_get_loop_fail_step yt_get_loop_fail_raise)
next
  fix reason assume reason: "err_reason r = Inr reason"
  let ?go = "status_code r \<in> {403, 429} \<and> is_quota_reason E reason \<and> 0 < w \<and> tries < mr"
  let ?s2 = "s\<lparr>sent := sent s @ [(ep, ps)], api_waiting := False,
                 api_wait_reason := ep @ '': '' @ py_str E reason\<rparr>"
  show "Suc (length (sent s)) < length (sent (snd (yt_get_loop E ep ps w mr tries s))) \<longleftrightarrow> ?go"
  proof (cases ?go)
    case True
    from yt_get_loop_sent [of mr "tries + 1" E ep ps w ?s2] obtain k where
      k: "1 \<le> k"
        "sent (snd (yt_get_loop E ep ps w mr (tries + 1) ?s2)) = sent ?s2 @ replicate k (ep, ps)"
      by blast
    have "yt_get_loop E ep ps w mr tries s = yt_get_loop E ep ps w mr (tries + 1) ?s2"
      unfolding yt_get_loop_fail_step [OF assms reason] using True by (rule if_P)
    with k True show ?thesis
      by simp
  next
    case False
    have "yt_get_loop E ep ps w mr tries s =
        (Inl (RuntimeError (status_code r) (resp_text r)), s\<lparr>sent := sent s @ [(ep, ps)]\<rparr>)"
      unfolding yt_get_loop_fail_step [OF assms reason] using False by (rule if_not_P)
    with False show ?thesis
      by simp
  qed
  assume "\<not> ?go"
  then show "yt_get_loop E ep ps w mr tries s =
      (Inl (RuntimeError (status_code r) (resp_text r)), s\<lparr>sent := sent s @ [(ep, ps)]\<rparr>)"
    unfolding yt_get_loop_fail_step [OF assms reason] by (rule if_not_P)
next
  from yt_get_loop_sent [of mr tries E ep ps w s]
  show "int (length (sent (snd (yt_get_loop E ep ps w mr tries s))))
          \<le> int (length (sent s)) + 1 + max 0 (mr - tries)"
    by auto
qed

lemma py_lower_reasons:
  "py_lower ''quotaExceeded'' = ''quotaexceeded''"
  by code_simp

lemma quota_resp_reason: "err_reason quota_resp = Inr (JStr ''quotaExceeded'')"
  by (simp add: err_reason_def quota_resp_def)

lemma quota_reason_token: "is_quota_reason E (JStr ''quotaExceeded'')"
  by (simp add: is_quota_reason_def py_str_def py_lower_reasons py_in_def sublist_code(3))

theorem yt_get_retry_policy_witness:
  "Suc 0 < length (sent (snd (yt_get_loop quota_then_ok ''search'' [] 1 2 0
       (session_init :: unit session))))
   \<and> yt_get_loop always_quota ''search'' [] 0 2 0 (session_init :: unit session) =
       (Inl (RuntimeError 403 ''quota exhausted''), session_init\<lparr>sent := [(''search'', [])]\<rparr>)"
  using yt_get_retry_policy [of quota_then_ok "session_init :: unit session" quota_resp
      "''search''" "[]" 1 2 0]
    yt_get_retry_policy [of always_quota "session_init :: unit session" quota_resp
      "''search''" "[]" 0 2 0]
  by (simp add: quota_resp_reason quota_reason_token)
     (simp add: quota_then_ok_def always_quota_def session_init_def quota_resp_def)

lemma always_quota_step:
  "yt_get_loop always_quota ep ps w mr tries s =
     (if 0 < w \<and> tries < mr
      then yt_get_loop always_quota ep ps w mr (tries + 1)
             (s\<lparr>sent := sent s @ [(ep, ps)], api_waiting := False,
                 api_wait_reason := ep @ '': '' @ ''quotaExceeded''\<rparr>)
      else (Inl (RuntimeError 403 ''quota exhausted''), s\<lparr>sent := sent s @ [(ep, ps)]\<rparr>))"
proof -
  have "http always_quota (length (sent s)) = Response quota_resp"
    by (simp add: always_quota_def)
  moreover have "status_code quota_resp \<noteq> 200" "status_code quota_resp = 403"
    "resp_text quota_resp = ''quota exhausted''"
    by (simp_all add: quota_resp_def)
  ultimately show ?thesis
    using quota_resp_reason quota_reason_token [of always_quota]
    by (simp add: yt_get_loop_fail_step [where r = quota_resp] py_str_def)
qed

text \<open>
  With \<open>max_retries = 2\<close> and two retries performed, a further 403 with reason
  \<open>quotaExceeded\<close> and a positive wait meets every condition with "at most" in place of
  "fewer than" (2 is at most 2), and the call raises: three requests in all.
\<close>

theorem yt_get_retry_counterexample:
  "http always_quota (length (sent (session_init :: unit session))) = Response quota_resp
   \<and> status_code quota_resp \<in> {403, 429}
   \<and> err_reason quota_resp = Inr (JStr ''quotaExceeded'')
   \<and> is_quota_reason always_quota (JStr ''quotaExceeded'')
   \<and> (0 :: real) < 1
   \<and> (2 :: int) \<le> 2
   \<and> yt_get_loop always_quota ''search'' [] 1 2 2 (session_init :: unit session) =
       (Inl (RuntimeError 403 ''quota exhausted''), session_init\<lparr>sent := [(''search'', [])]\<rparr>)
   \<and> length (sent (snd (yt_get always_quota ''search'' [] ''k'' 1 2
        (session_init :: unit session)))) = 3
   \<and> fst (yt_get always_quota ''search'' [] ''k'' 1 2 (session_init :: unit session)) =
       Inl (RuntimeError 403 ''quota exhausted'')"
proof -
  have "http always_quota (length (sent (session_init :: unit session))) = Response quota_resp"
    by (simp add: always_quota_def)
  moreover have "status_code quota_resp \<in> {403, 429}"
    by (simp add: quota_resp_def)
  moreover have "sent (session_init :: unit session) = []"
    by (simp add: session_init_def)
  ultimately show ?thesis
    by (simp add: quota_resp_reason quota_reason_token always_quota_step yt_get_def Let_def)
qed

section \<open>Facts about batching and the detail step\<close>

lemma batched_from_short:
  "length batch + length xs < n \<Longrightarrow>
     batched_from xs (int n) batch = (if batch @ xs = [] then [] else [batch @ xs])"
  by (induction xs arbitrary: batch) (auto simp: Let_def)

lemma batched_from_full:
  "length batch < n \<Longrightarrow> n \<le> length batch + length xs \<Longrightarrow>
     batched_from xs (int n) batch =
       (batch @ take (n - length batch) xs) # batched_from (drop (n - length batch) xs) (int n) []"
proof (induction xs arbitrary: batch)
  case Nil
  then show ?case by simp
next
  case (Cons x xs)
  show ?case
  proof (cases "Suc (length batch) = n")
    case True
    then show ?thesis by (auto simp: Let_def)
  next
    case False
    with Cons.prems have "length (batch @ [x]) < n" "n \<le> length (batch @ [x]) + length xs"
      by auto
    from Cons.IH [OF this] False Cons.prems show ?thesis
      by (auto simp: Let_def Suc_diff_le take_Cons' drop_Cons' )
  qed
qed

lemma batched_unfold:
  assumes "0 < n"
  shows "batched xs (int n) = (if xs = [] then [] else take n xs # batched (drop n xs) (int n))"
proof (cases "length xs < n")
  case True
  then show ?thesis
    using batched_from_short [of "[]" xs n] by (auto simp: batched_def)
next
  case False
  with assms show ?thesis
    using batched_from_full [of "[]" n xs] by (auto simp: batched_def)
qed

lemma batched_props:
  assumes "0 < n"
  shows "concat (batched xs (int n)) = xs
       \<and> (\<forall>b \<in> set (batched xs (int n)). 0 < length b \<and> length b \<le> n)
       \<and> length (batched xs (int n)) = (length xs + (n - 1)) div n"
proof (induction xs rule: length_induct)
  case (1 xs)
  show ?case
  proof (cases "xs = []")
    case True
    with assms show ?thesis by (simp add: batched_unfold)
  next
    case False
    with assms have "length (drop n xs) < length xs" by simp
    with 1 have IH: "concat (batched (drop n xs) (int n)) = drop n xs"
      "\<forall>b \<in> set (batched (drop n xs) (int n)). 0 < length b \<and> length b \<le> n"
      "length (batched (drop n xs) (int n)) = (length (drop n xs) + (n - 1)) div n"
      by blast+
    have "Suc ((length xs - n + (n - 1)) div n) = (length xs + (n - 1)) div n"
    proof (cases "n \<le> length xs")
      case True
      then have "length xs + (n - 1) = (length xs - n + (n - 1)) + n" using assms by simp
      then show ?thesis using assms by (metis div_add_self2 less_numeral_extra(3) Suc_eq_plus1)
    next
      case no: False
      have "0 < length xs" using False by simp
      with no have "n * 1 \<le> length xs + (n - 1)" "length xs + (n - 1) < n * Suc 1"
        by arith+
      then have "(length xs + (n - 1)) div n = 1"
        by (rule Euclidean_Rings.div_nat_eqI)
      then show ?thesis using no assms by simp
    qed
    with IH False assms show ?thesis
      by (subst (1 2 3) batched_unfold [OF assms]) auto
  qed
qed

lemma batched_120:
  assumes "length xs = 120"
  shows "map length (batched xs 50) = [50, 50, 20]"
proof -
  have u: "batched ys 50 = (if ys = [] then [] else take 50 ys # batched (drop 50 ys) 50)" for ys :: "'a list"
    using batched_unfold [of 50 ys] by simp
  have "xs \<noteq> []" "drop 50 xs \<noteq> []" "drop 50 (drop 50 xs) \<noteq> []" "drop 50 (drop 50 (drop 50 xs)) = []"
    using assms by auto
  moreover have "batched ([] :: 'a list) 50 = []"
    by (simp add: batched_def)
  ultimately show ?thesis
    using assms by (simp add: u [of xs] u [of "drop 50 xs"] u [of "drop 100 xs"])
qed


lemma yt_get_loop_frame:
  "calls (snd (yt_get_loop E ep ps w mr tries s)) = calls s
   \<and> results_df (snd (yt_get_loop E ep ps w mr tries s)) = results_df s
   \<and> payload_cache (snd (yt_get_loop E ep ps w mr tries s)) = payload_cache s"
proof (induction E ep ps w mr tries s rule: yt_get_loop.induct)
  case (1 E ep ps w mr tries s)
  show ?case
  proof (cases "http E (length (sent s))")
    case Transport_failure
    then show ?thesis
      by (subst (1 2 3) yt_get_loop.simps) simp
  next
    case (Response r)
    show ?thesis
    proof (cases "status_code r = 200")
      case True
      with Response show ?thesis
        by (subst (1 2 3) yt_get_loop.simps)
           (auto simp: Let_def split: sum.splits option.splits dest!: record_quota_fields)
    next
      case False
      show ?thesis
      proof (cases "err_reason r")
        case (Inl e)
        with Response False show ?thesis
          by (simp add: yt_get_loop_fail_raise)
      next
        case (Inr reason)
        let ?s2 = "s\<lparr>sent := sent s @ [(ep, ps)], api_waiting := False,
                       api_wait_reason := ep @ '': '' @ py_str E reason\<rparr>"
        show ?thesis
        proof (cases "status_code r \<in> {403, 429} \<and> is_quota_reason E reason
                       \<and> w > 0 \<and> tries + 1 \<le> mr")
          case True
          from "1.IH" [OF refl refl Response False Inr] True
          have "calls (snd (yt_get_loop E ep ps w mr (tries + 1) ?s2)) = calls ?s2
             \<and> results_df (snd (yt_get_loop E ep ps w mr (tries + 1) ?s2)) = results_df ?s2
             \<and> payload_cache (snd (yt_get_loop E ep ps w mr (tries + 1) ?s2)) = payload_cache ?s2"
            by simp
          moreover have "yt_get_loop E ep ps w mr tries s = yt_get_loop E ep ps w mr (tries + 1) ?s2"
            using True by (simp add: yt_get_loop_fail_step [OF Response False Inr])
          ultimately show ?thesis by simp
        next
          case no: False
          then have "yt_get_loop E ep ps w mr tries s =
              (Inl (RuntimeError (status_code r) (resp_text r)), s\<lparr>sent := sent s @ [(ep, ps)]\<rparr>)"
            by (auto simp add: yt_get_loop_fail_step [OF Response False Inr])
          then show ?thesis by simp
        qed
      qed
    qed
  qed
qed

lemma yt_get_frame:
  assumes "yt_get E ep ps k w mr s = (r, s')"
  shows "calls s' = calls s @ [(ep, AList.update ''key'' (JStr k) ps)]"
    and "results_df s' = results_df s" and "payload_cache s' = payload_cache s"
  using assms yt_get_loop_frame [of E ep "AList.update ''key'' (JStr k) ps" w mr 0
      "s\<lparr>calls := calls s @ [(ep, AList.update ''key'' (JStr k) ps)]\<rparr>"]
  by (auto simp: yt_get_def Let_def)

lemma details_batches_calls:
  "\<exists>new. calls (snd (details_batches E k w bs d s)) = calls s @ new
      \<and> length new \<le> length bs
      \<and> list_all2 (\<lambda>c b. videos_call k b c) new (take (length new) bs)
      \<and> (\<not> isl (fst (details_batches E k w bs d s)) \<longrightarrow> length new = length bs)"
proof (induction bs arbitrary: d s)
  case Nil
  then show ?case by simp
next
  case (Cons b bs)
  show ?case
  proof (cases "py_join '','' b")
    case (Inl e)
    then show ?thesis by auto
  next
    case (Inr joined)
    obtain r s1 where y: "yt_get E ''videos'' (videos_params joined) k w 2 s = (r, s1)"
      by (cases "yt_get E ''videos'' (videos_params joined) k w 2 s")
    let ?c = "(''videos'', AList.update ''key'' (JStr k) (videos_params joined))"
    have c: "calls s1 = calls s @ [?c]" using yt_get_frame(1) [OF y] .
    have vc: "videos_call k b ?c" by (simp add: videos_call_def Inr)
    show ?thesis
    proof (cases "\<exists>d1. details_batches E k w (b # bs) d s = details_batches E k w bs d1 s1")
      case True
      then obtain d1 where e: "details_batches E k w (b # bs) d s = details_batches E k w bs d1 s1"
        by blast
      from Cons.IH [of d1 s1] obtain new where
        n: "calls (snd (details_batches E k w bs d1 s1)) = calls s1 @ new"
          "length new \<le> length bs"
          "list_all2 (\<lambda>c b. videos_call k b c) new (take (length new) bs)"
          "\<not> isl (fst (details_batches E k w bs d1 s1)) \<longrightarrow> length new = length bs"
        by blast
      with e c vc show ?thesis
        by (intro exI [of _ "?c # new"]) simp
    next
      case False
      then have "\<exists>e. details_batches E k w (b # bs) d s = (Inl e, s1)"
        using Inr y by (auto split: sum.splits)
      with c vc show ?thesis
        by (intro exI [of _ "[?c]"]) auto
    qed
  qed
qed


text \<open>
  C8. \<open>batched ids 50\<close> cuts any identifier list into consecutive non-empty chunks of
  at most 50, \<open>ceil(n/50)\<close> of them for \<open>n\<close> identifiers, of sizes 50, 50 and 20 for 120
  identifiers. \<open>fetch_video_details\<close> makes its gateway calls one per chunk, in order,
  each of kind \<open>videos\<close> with that chunk as \<open>id\<close>: never more than \<open>ceil(n/50)\<close>,
  exactly \<open>ceil(n/50)\<close> when it returns, and none for an empty input.
\<close>

theorem detail_batches_of_50:
  "concat (batched ids 50) = ids
   \<and> (\<forall>b \<in> set (batched ids 50). 0 < length b \<and> length b \<le> 50)
   \<and> length (batched ids 50) = (length ids + 49) div 50
   \<and> (length ids = 120 \<longrightarrow> map length (batched ids 50) = [50, 50, 20])
   \<and> (\<exists>new. calls (snd (fetch_video_details E api_key ids w s)) = calls s @ new
         \<and> length new \<le> (length ids + 49) div 50
         \<and> list_all2 (\<lambda>c b. videos_call api_key b c) new (take (length new) (batched ids 50))
         \<and> (\<not> isl (fst (fetch_video_details E api_key ids w s)) \<longrightarrow>
               length new = (length ids + 49) div 50)
         \<and> (ids = [] \<longrightarrow> new = []))"
proof -
  have p: "concat (batched ids 50) = ids"
    "\<forall>b \<in> set (batched ids 50). 0 < length b \<and> length b \<le> 50"
    "length (batched ids 50) = (length ids + 49) div 50"
    using batched_props [of 50 ids] by simp_all
  have "\<exists>new. calls (snd (fetch_video_details E api_key ids w s)) = calls s @ new
         \<and> length new \<le> (length ids + 49) div 50
         \<and> list_all2 (\<lambda>c b. videos_call api_key b c) new (take (length new) (batched ids 50))
         \<and> (\<not> isl (fst (fetch_video_details E api_key ids w s)) \<longrightarrow>
               length new = (length ids + 49) div 50)
         \<and> (ids = [] \<longrightarrow> new = [])"
  proof (cases "ids = []")
    case True
    then show ?thesis by (simp add: fetch_video_details_def)
  next
    case False
    with details_batches_calls [of E api_key w "batched ids 50" "[]" s] p(3)
    show ?thesis by (simp add: fetch_video_details_def)
  qed
  with p batched_120 [of ids] show ?thesis by blast
qed

lemma always_ok_120:
  "\<not> isl (fst (fetch_video_details always_ok ''k'' (replicate 120 (JStr ''v'')) 0
      (session_init :: unit session)))"
  by code_simp

theorem detail_batches_of_50_witness:
  "map length (batched (replicate 120 (JStr ''v'')) 50) = [50, 50, 20]
   \<and> length (calls (snd (fetch_video_details always_ok ''k'' (replicate 120 (JStr ''v'')) 0
        (session_init :: unit session)))) = 3
   \<and> calls (snd (fetch_video_details always_ok ''k'' [] 0 (session_init :: unit session))) = []"
  using detail_batches_of_50 [of "replicate 120 (JStr ''v'')" always_ok "''k''" 0
      "session_init :: unit session"]
    detail_batches_of_50 [of "[]" always_ok "''k''" 0 "session_init :: unit session"]
    always_ok_120
  by (auto simp: session_init_def)

section \<open>Facts about the pagination walker\<close>

lemma yt_get_sent:
  assumes "yt_get E ep ps k w mr s = (r, s')"
  shows "\<exists>n. 1 \<le> n \<and> sent s' = sent s @ replicate n (ep, AList.update ''key'' (JStr k) ps)"
  using assms yt_get_loop_sent [of mr 0 E ep "AList.update ''key'' (JStr k) ps" w
      "s\<lparr>calls := calls s @ [(ep, AList.update ''key'' (JStr k) ps)]\<rparr>"]
  by (auto simp: yt_get_def Let_def)

lemma search_pages_sent:
  "\<exists>new. sent (snd (search_pages fuel E params k w mx np ids s)) = sent s @ new
      \<and> (0 < fuel \<longrightarrow> new \<noteq> [])
      \<and> (\<forall>rq \<in> set new. fst rq = ''search''
            \<and> map_of (snd rq) ''order'' = map_of params ''order'')"
proof (induction fuel arbitrary: params np ids s)
  case 0
  then show ?case by simp
next
  case (Suc fuel)
  define params1 where
    "params1 = (if truthy np then AList.update ''pageToken'' np params else params)"
  have o: "map_of params1 ''order'' = map_of params ''order''"
    by (simp add: params1_def update_conv')
  obtain r s1 where y: "yt_get E ''search'' params1 k w 2 s = (r, s1)"
    by (cases "yt_get E ''search'' params1 k w 2 s")
  from yt_get_sent [OF y] obtain n where
    n: "1 \<le> n" "sent s1 = sent s @ replicate n (''search'', AList.update ''key'' (JStr k) params1)"
    by blast
  let ?first = "replicate n (''search'', AList.update ''key'' (JStr k) params1)"
  have f: "?first \<noteq> []"
    "\<forall>rq \<in> set ?first. fst rq = ''search'' \<and> map_of (snd rq) ''order'' = map_of params ''order''"
    using n(1) o by (auto simp: update_conv')
  show ?case
  proof (cases "\<exists>np1 ids1. search_pages (Suc fuel) E params k w mx np ids s =
                   search_pages fuel E params1 k w mx np1 ids1 s1")
    case True
    then obtain np1 ids1 where e: "search_pages (Suc fuel) E params k w mx np ids s =
        search_pages fuel E params1 k w mx np1 ids1 s1" by blast
    from Suc.IH [of params1 np1 ids1 s1] obtain new where
      "sent (snd (search_pages fuel E params1 k w mx np1 ids1 s1)) = sent s1 @ new"
      "\<forall>rq \<in> set new. fst rq = ''search'' \<and> map_of (snd rq) ''order'' = map_of params1 ''order''"
      by blast
    with e n f o show ?thesis
      by (intro exI [of _ "?first @ new"]) auto
  next
    case False
    then have "snd (search_pages (Suc fuel) E params k w mx np ids s) = s1"
      using y by (auto simp: params1_def Let_def split: sum.splits bool.splits prod.splits if_splits)
    with n f show ?thesis
      by (intro exI [of _ ?first]) auto
  qed
qed

text \<open>
  C4. Every request that a walk issues is a search request whose \<open>order\<close> parameter
  is \<open>date\<close> when \<open>published_after\<close> is set (non-empty) and the requested order is not
  \<open>date\<close>, and the requested order otherwise; a walk that runs at all issues a request.
\<close>

theorem walker_order_override:
  "\<exists>new. sent (snd (fetch_videos_by_search fuel E api_key query channel_id region_code
              relevance_language published_after max_results order wait_minutes s)) = sent s @ new
      \<and> (0 < fuel \<longrightarrow> new \<noteq> [])
      \<and> (\<forall>rq \<in> set new. fst rq = ''search''
            \<and> map_of (snd rq) ''order'' =
                Some (JStr (if truthy published_after \<and> order \<noteq> ''date'' then ''date''
                            else order)))"
proof -
  define params where "params =
    set_param ''publishedAfter'' published_after
     (set_param ''relevanceLanguage'' relevance_language
       (set_param ''regionCode'' region_code
         (set_param ''channelId'' channel_id
           (set_param ''q'' query
             [(''part'', JStr ''snippet''), (''type'', JStr ''video''),
              (''maxResults'', JInt 50),
              (''order'', JStr (effective_order published_after order))]))))"
  have "map_of params ''order'' = Some (JStr (effective_order published_after order))"
    by (simp add: params_def set_param_def update_conv')
  moreover have "fetch_videos_by_search fuel E api_key query channel_id region_code
      relevance_language published_after max_results order wait_minutes s =
      search_pages fuel E params api_key wait_minutes max_results JNull [] s"
    by (simp add: fetch_videos_by_search_def params_def Let_def)
  ultimately show ?thesis
    using search_pages_sent [of fuel E params api_key wait_minutes max_results JNull "[]" s]
    by (simp add: effective_order_def)
qed


theorem walker_order_override_witness:
  "\<exists>new. sent (snd (fetch_videos_by_search 5 always_ok ''k'' (JStr ''cats'') JNull (JStr ''KR'')
              (JStr ''ko'') (JStr ''2024-01-01T00:00:00Z'') 200 ''viewCount'' 0
              (session_init :: unit session))) = new
      \<and> new \<noteq> []
      \<and> list_all (\<lambda>rq. fst rq = ''search'' \<and> map_of (snd rq) ''order'' = Some (JStr ''date''))
           new"
  using walker_order_override [of 5 always_ok "''k''" "JStr ''cats''" JNull "JStr ''KR''"
      "JStr ''ko''" "JStr ''2024-01-01T00:00:00Z''" 200 "''viewCount''" 0
      "session_init :: unit session"]
  by (simp add: session_init_def list_all_iff)

lemma delivered_append:
  "lo \<le> mid \<Longrightarrow> mid \<le> hi \<Longrightarrow> delivered E lo hi = delivered E lo mid @ delivered E mid hi"
proof -
  assume "lo \<le> mid" "mid \<le> hi"
  then obtain k where "hi = mid + k" "lo \<le> mid"
    by (metis le_Suc_ex)
  then show ?thesis
    using upt_add_eq_append [of lo mid k] by (simp add: delivered_def)
qed

lemma delivered_Suc: "delivered E lo (Suc lo) = page_vids (http E lo)"
  by (simp add: delivered_def)

lemma take_items_prefix:
  "take_items its mx ids = Inr (flag, ids') \<Longrightarrow>
     \<exists>p. ids' = ids @ p \<and> prefix p (item_vids its) \<and> (\<not> flag \<longrightarrow> p = item_vids its)"
proof (induction its arbitrary: ids)
  case Nil
  then show ?case by auto
next
  case (Cons item rest)
  from Cons.prems obtain i vid where
    i: "py_item item ''id'' = Inr i" "py_item i ''videoId'' = Inr vid"
    by (auto split: sum.splits)
  show ?case
  proof (cases "int (length (ids @ [vid])) \<ge> mx")
    case True
    with Cons.prems i show ?thesis
      by (auto simp: Let_def)
  next
    case False
    with Cons.prems i have "take_items rest mx (ids @ [vid]) = Inr (flag, ids')"
      by (auto simp: Let_def)
    from Cons.IH [OF this] i show ?thesis
      by auto
  qed
qed

lemma take_items_length:
  "take_items its mx ids = Inr (flag, ids') \<Longrightarrow> ids = [] \<or> int (length ids) < mx \<Longrightarrow>
     (flag \<longrightarrow> int (length ids') \<le> max 1 mx)
     \<and> (\<not> flag \<longrightarrow> ids' = [] \<or> int (length ids') < mx)"
proof (induction its arbitrary: ids)
  case Nil
  then show ?case by auto
next
  case (Cons item rest)
  from Cons.prems obtain i vid where
    i: "py_item item ''id'' = Inr i" "py_item i ''videoId'' = Inr vid"
    by (auto split: sum.splits)
  show ?case
  proof (cases "int (length (ids @ [vid])) \<ge> mx")
    case True
    with Cons.prems i show ?thesis
      by (auto simp: Let_def)
  next
    case False
    with Cons.prems i have "take_items rest mx (ids @ [vid]) = Inr (flag, ids')"
      by (auto simp: Let_def)
    moreover from False have "ids @ [vid] = [] \<or> int (length (ids @ [vid])) < mx" by simp
    ultimately show ?thesis by (rule Cons.IH)
  qed
qed


lemma page_vids_fail:
  "status_code r \<noteq> 200 \<Longrightarrow> page_vids (Response r) = []"
  by (simp add: page_vids_def)

lemma yt_get_loop_delivered:
  "yt_get_loop E ep ps w mr tries s = (Inr data, s') \<Longrightarrow>
     delivered E (length (sent s)) (length (sent s')) = data_vids data"
proof (induction E ep ps w mr tries s rule: yt_get_loop.induct)
  case (1 E ep ps w mr tries s)
  show ?case
  proof (cases "http E (length (sent s))")
    case Transport_failure
    with "1.prems" show ?thesis
      by (subst (asm) yt_get_loop.simps) simp
  next
    case (Response r)
    show ?thesis
    proof (cases "status_code r = 200")
      case True
      with Response "1.prems" have "resp_json r = Some data" "length (sent s') = Suc (length (sent s))"
        by (subst (asm) yt_get_loop.simps;
            auto simp: Let_def split: sum.splits option.splits dest!: record_quota_fields)+
      with True Response show ?thesis
        by (simp add: delivered_Suc page_vids_def)
    next
      case False
      show ?thesis
      proof (cases "err_reason r")
        case (Inl e)
        with Response False "1.prems" show ?thesis
          by (simp add: yt_get_loop_fail_raise)
      next
        case (Inr reason)
        let ?s2 = "s\<lparr>sent := sent s @ [(ep, ps)], api_waiting := False,
                       api_wait_reason := ep @ '': '' @ py_str E reason\<rparr>"
        let ?go = "status_code r \<in> {403, 429} \<and> is_quota_reason E reason \<and> w > 0
                     \<and> tries + 1 \<le> mr"
        from "1.prems" have go: ?go
          by (auto simp add: yt_get_loop_fail_step [OF Response False Inr] split: if_splits)
        then have e: "yt_get_loop E ep ps w mr (tries + 1) ?s2 = (Inr data, s')"
          using "1.prems" by (simp add: yt_get_loop_fail_step [OF Response False Inr])
        from "1.IH" [OF refl refl Response False Inr go e]
        have d: "delivered E (Suc (length (sent s))) (length (sent s')) = data_vids data"
          by simp
        from yt_get_loop_sent [of mr "tries + 1" E ep ps w ?s2] e
        have "Suc (length (sent s)) \<le> length (sent s')"
          by auto
        from delivered_append [OF _ this, of "length (sent s)" E] d Response False
        show ?thesis
          by (simp add: delivered_Suc page_vids_fail)
      qed
    qed
  qed
qed

lemma yt_get_delivered:
  "yt_get E ep ps k w mr s = (Inr data, s') \<Longrightarrow>
     delivered E (length (sent s)) (length (sent s')) = data_vids data"
  using yt_get_loop_delivered [of E ep "AList.update ''key'' (JStr k) ps" w mr 0
      "s\<lparr>calls := calls s @ [(ep, AList.update ''key'' (JStr k) ps)]\<rparr>" data s']
  by (simp add: yt_get_def Let_def)

lemma search_pages_Suc_cases:
  assumes "search_pages (Suc fuel) E params k w mx np ids s = (Some (Inr ids'), s')"
  obtains data s1 its flag ids1 params1 where
    "yt_get E ''search'' params1 k w 2 s = (Inr data, s1)"
    "data_vids data = item_vids its"
    "take_items its mx ids = Inr (flag, ids1)"
    "(ids' = ids1 \<and> s' = s1)
     \<or> (\<not> flag \<and> (\<exists>np1. search_pages fuel E params1 k w mx np1 ids1 s1 = (Some (Inr ids'), s')))"
proof -
  define params1 where
    "params1 = (if truthy np then AList.update ''pageToken'' np params else params)"
  obtain r s1 where y: "yt_get E ''search'' params1 k w 2 s = (r, s1)"
    by (cases "yt_get E ''search'' params1 k w 2 s")
  from assms y obtain data where r: "r = Inr data"
    by (cases r) (auto simp: params1_def Let_def)
  from assms y r obtain items where items: "py_get data ''items'' (JArr []) = Inr items"
    by (cases "py_get data ''items'' (JArr [])") (auto simp: params1_def Let_def)
  from assms y r items obtain its where its: "py_iter items = Inr its"
    by (cases "py_iter items") (auto simp: params1_def Let_def)
  from assms y r items its obtain flag ids1 where t: "take_items its mx ids = Inr (flag, ids1)"
    by (cases "take_items its mx ids") (auto simp: params1_def Let_def)
  have dv: "data_vids data = item_vids its"
    by (simp add: data_vids_def items its)
  have "(ids' = ids1 \<and> s' = s1)
     \<or> (\<not> flag \<and> (\<exists>np1. search_pages fuel E params1 k w mx np1 ids1 s1 = (Some (Inr ids'), s')))"
    using assms y r items its t
    by (cases flag) (auto simp: params1_def Let_def split: sum.splits if_splits)
  with y r dv t show ?thesis
    using that by blast
qed

lemma search_pages_sent_mono:
  "length (sent s) \<le> length (sent (snd (search_pages fuel E params k w mx np ids s)))"
  using search_pages_sent [of fuel E params k w mx np ids s] by auto

lemma search_pages_result:
  "search_pages fuel E params k w mx np ids s = (Some (Inr ids'), s') \<Longrightarrow>
   ids = [] \<or> int (length ids) < mx \<Longrightarrow>
     int (length ids') \<le> max 1 mx
     \<and> (\<exists>p. ids' = ids @ p \<and> prefix p (delivered E (length (sent s)) (length (sent s'))))"
proof (induction fuel arbitrary: params np ids s)
  case 0
  then show ?case by simp
next
  case (Suc fuel)
  from Suc.prems(1) obtain data s1 its flag ids1 params1 where
    y: "yt_get E ''search'' params1 k w 2 s = (Inr data, s1)"
    and dv: "data_vids data = item_vids its"
    and t: "take_items its mx ids = Inr (flag, ids1)"
    and alt: "(ids' = ids1 \<and> s' = s1)
     \<or> (\<not> flag \<and> (\<exists>np1. search_pages fuel E params1 k w mx np1 ids1 s1 = (Some (Inr ids'), s')))"
    by (rule search_pages_Suc_cases)
  from yt_get_delivered [OF y] dv
  have d1: "delivered E (length (sent s)) (length (sent s1)) = item_vids its" by simp
  from yt_get_sent [OF y] have m1: "length (sent s) \<le> length (sent s1)" by auto
  from take_items_prefix [OF t] obtain p1 where
    p1: "ids1 = ids @ p1" "prefix p1 (item_vids its)" "\<not> flag \<longrightarrow> p1 = item_vids its"
    by blast
  from take_items_length [OF t Suc.prems(2)]
  have l1: "flag \<longrightarrow> int (length ids1) \<le> max 1 mx"
    "\<not> flag \<longrightarrow> ids1 = [] \<or> int (length ids1) < mx"
    by auto
  from alt show ?case
  proof
    assume "ids' = ids1 \<and> s' = s1"
    with p1 d1 l1 show ?thesis by (cases flag) auto
  next
    assume "\<not> flag \<and> (\<exists>np1. search_pages fuel E params1 k w mx np1 ids1 s1 = (Some (Inr ids'), s'))"
    then obtain np1 where nf: "\<not> flag"
      and rec: "search_pages fuel E params1 k w mx np1 ids1 s1 = (Some (Inr ids'), s')"
      by blast
    from Suc.IH [OF rec] l1(2) nf obtain p2 where
      p2: "int (length ids') \<le> max 1 mx" "ids' = ids1 @ p2"
        "prefix p2 (delivered E (length (sent s1)) (length (sent s')))"
      by blast
    from search_pages_sent_mono [of s1 fuel E params1 k w mx np1 ids1] rec
    have m2: "length (sent s1) \<le> length (sent s')" by simp
    have "delivered E (length (sent s)) (length (sent s')) =
        item_vids its @ delivered E (length (sent s1)) (length (sent s'))"
      using delivered_append [OF m1 m2, of E] d1 by simp
    with p1 p2 nf show ?thesis
      by (intro conjI exI [of _ "p1 @ p2"]) auto
  qed
qed


text \<open>
  C3 (amended). A walk that returns a list returns at most \<open>max_results\<close> identifiers
  when \<open>max_results\<close> is at least 1 (and at most one otherwise). The list is a prefix of
  the identifiers that the pages of the walk delivered, in the order delivered and with
  nothing removed: it has no identifier twice whenever the pages delivered none twice.
\<close>

theorem walker_cap_and_order:
  assumes "fetch_videos_by_search fuel E api_key query channel_id region_code
      relevance_language published_after max_results order wait_minutes s = (Some (Inr ids), s')"
  shows "int (length ids) \<le> max 1 max_results
       \<and> prefix ids (delivered E (length (sent s)) (length (sent s')))
       \<and> (distinct (delivered E (length (sent s)) (length (sent s'))) \<longrightarrow> distinct ids)"
proof -
  from assms obtain params where
    "search_pages fuel E params api_key wait_minutes max_results JNull [] s = (Some (Inr ids), s')"
    by (simp add: fetch_videos_by_search_def Let_def)
  from search_pages_result [OF this]
  have "int (length ids) \<le> max 1 max_results"
    and p: "prefix ids (delivered E (length (sent s)) (length (sent s')))"
    by auto
  moreover from p have "distinct (delivered E (length (sent s)) (length (sent s'))) \<longrightarrow> distinct ids"
    by (auto simp: prefix_def)
  ultimately show ?thesis by blast
qed

lemma two_pages_walk:
  "fst (fetch_videos_by_search 5 two_pages ''k'' (JStr ''cats'') JNull JNull JNull JNull 3
      ''viewCount'' 0 (session_init :: unit session)) =
     Some (Inr [JStr ''a'', JStr ''b'', JStr ''c''])"
  by code_simp

theorem walker_cap_and_order_witness:
  "fst (fetch_videos_by_search 5 two_pages ''k'' (JStr ''cats'') JNull JNull JNull JNull 3
      ''viewCount'' 0 (session_init :: unit session)) =
     Some (Inr [JStr ''a'', JStr ''b'', JStr ''c''])
   \<and> prefix [JStr ''a'', JStr ''b'', JStr ''c'']
       (delivered two_pages 0
         (length (sent (snd (fetch_videos_by_search 5 two_pages ''k'' (JStr ''cats'') JNull JNull
            JNull JNull 3 ''viewCount'' 0 (session_init :: unit session))))))"
  using walker_cap_and_order [of 5 two_pages "''k''" "JStr ''cats''" JNull JNull JNull JNull 3
      "''viewCount''" 0 "session_init :: unit session" "[JStr ''a'', JStr ''b'', JStr ''c'']"
      "snd (fetch_videos_by_search 5 two_pages ''k'' (JStr ''cats'') JNull JNull
            JNull JNull 3 ''viewCount'' 0 (session_init :: unit session))"]
    two_pages_walk
  by (simp add: prod_eq_iff session_init_def)

text \<open>
  A page that carries the identifier \<open>a\<close> twice is returned with \<open>a\<close> twice; with
  \<open>max_results = 0\<close> one identifier is returned.
\<close>

theorem walker_repeats_counterexample:
  "fst (fetch_videos_by_search 5 dup_env ''k'' (JStr ''cats'') JNull JNull JNull JNull 5
      ''viewCount'' 0 (session_init :: unit session)) =
     Some (Inr [JStr ''a'', JStr ''a''])
   \<and> \<not> distinct [JStr ''a'', JStr ''a'']
   \<and> fst (fetch_videos_by_search 5 dup_env ''k'' (JStr ''cats'') JNull JNull JNull JNull 0
      ''viewCount'' 0 (session_init :: unit session)) =
     Some (Inr [JStr ''a''])
   \<and> \<not> int (length [JStr ''a'']) \<le> 0"
  by code_simp

section \<open>Facts about the run\<close>

lemma same_published_refl: "same_published s s"
  by (simp add: same_published_def)

lemma same_published_trans:
  "same_published s s1 \<Longrightarrow> same_published s1 s2 \<Longrightarrow> same_published s s2"
  by (simp add: same_published_def)

lemma yt_get_same:
  "yt_get E ep ps k w mr s = (r, s') \<Longrightarrow> same_published s s'"
  by (simp add: same_published_def yt_get_frame)

lemma search_pages_same:
  "search_pages fuel E params k w mx np ids s = (r, s') \<Longrightarrow> same_published s s'"
proof (induction fuel arbitrary: params np ids s)
  case 0
  then show ?case by (simp add: same_published_refl)
next
  case (Suc fuel)
  define params1 where
    "params1 = (if truthy np then AList.update ''pageToken'' np params else params)"
  obtain r1 s1 where y: "yt_get E ''search'' params1 k w 2 s = (r1, s1)"
    by (cases "yt_get E ''search'' params1 k w 2 s")
  note f = yt_get_same [OF y]
  have "(\<exists>np1 ids1. search_pages (Suc fuel) E params k w mx np ids s =
            search_pages fuel E params1 k w mx np1 ids1 s1)
      \<or> snd (search_pages (Suc fuel) E params k w mx np ids s) = s1"
    using y by (auto simp: params1_def Let_def split: sum.splits bool.splits prod.splits if_splits)
  then show ?case
  proof
    assume "\<exists>np1 ids1. search_pages (Suc fuel) E params k w mx np ids s =
            search_pages fuel E params1 k w mx np1 ids1 s1"
    then obtain np1 ids1 where "search_pages fuel E params1 k w mx np1 ids1 s1 = (r, s')"
      using Suc.prems by auto
    from Suc.IH [OF this] f show ?thesis by (rule same_published_trans [rotated])
  next
    assume "snd (search_pages (Suc fuel) E params k w mx np ids s) = s1"
    with Suc.prems f show ?thesis by simp
  qed
qed

lemma fetch_videos_by_search_same:
  "fetch_videos_by_search fuel E k q ch rc rl pa mx order w s = (r, s') \<Longrightarrow> same_published s s'"
  by (auto simp: fetch_videos_by_search_def Let_def dest: search_pages_same)

lemma walk_all_same:
  "walk_all fuel E cfg pa jobs collected s = (r, s') \<Longrightarrow> same_published s s'"
proof (induction jobs arbitrary: collected s)
  case Nil
  then show ?case by (simp add: same_published_refl)
next
  case (Cons j jobs)
  obtain q ch region cap order where j: "j = (q, ch, region, cap, order)"
    by (cases j)
  obtain r1 s1 where y: "fetch_videos_by_search fuel E (cfg_api_key cfg) q ch (JStr region)
             (JStr (cfg_effective_lang cfg)) pa cap order (cfg_wait_minutes cfg) s = (r1, s1)"
    by (cases "fetch_videos_by_search fuel E (cfg_api_key cfg) q ch (JStr region)
             (JStr (cfg_effective_lang cfg)) pa cap order (cfg_wait_minutes cfg) s")
  note f = fetch_videos_by_search_same [OF y]
  have "(\<exists>c1. walk_all fuel E cfg pa (j # jobs) collected s = walk_all fuel E cfg pa jobs c1 s1)
      \<or> snd (walk_all fuel E cfg pa (j # jobs) collected s) = s1"
    using y j by (auto split: sum.splits option.splits)
  then show ?case
  proof
    assume "\<exists>c1. walk_all fuel E cfg pa (j # jobs) collected s = walk_all fuel E cfg pa jobs c1 s1"
    then obtain c1 where "walk_all fuel E cfg pa jobs c1 s1 = (r, s')"
      using Cons.prems by auto
    from Cons.IH [OF this] f show ?thesis by (rule same_published_trans [rotated])
  next
    assume "snd (walk_all fuel E cfg pa (j # jobs) collected s) = s1"
    with Cons.prems f show ?thesis by simp
  qed
qed

lemma resolve_channel_ids_same:
  "resolve_channel_ids E k w tokens out s = (r, s') \<Longrightarrow> same_published s s'"
proof (induction tokens arbitrary: out s)
  case Nil
  then show ?case by (simp add: same_published_refl)
next
  case (Cons token rest)
  show ?case
  proof (cases "prefix ''@'' token")
    case False
    with Cons.prems have "resolve_channel_ids E k w rest (out @ [JStr token]) s = (r, s')"
      by simp
    then show ?thesis by (rule Cons.IH)
  next
    case True
    let ?ps = "[(''part'', JStr ''snippet''), (''type'', JStr ''channel''),
                (''q'', JStr token), (''maxResults'', JInt 1)]"
    obtain r1 s1 where y: "yt_get E ''search'' ?ps k w 2 s = (r1, s1)"
      by (cases "yt_get E ''search'' ?ps k w 2 s")
    note f = yt_get_same [OF y]
    have "(\<exists>o1. resolve_channel_ids E k w (token # rest) out s =
              resolve_channel_ids E k w rest o1 s1)
        \<or> snd (resolve_channel_ids E k w (token # rest) out s) = s1"
      using y True by (auto split: sum.splits)
    then show ?thesis
    proof
      assume "\<exists>o1. resolve_channel_ids E k w (token # rest) out s =
              resolve_channel_ids E k w rest o1 s1"
      then obtain o1 where "resolve_channel_ids E k w rest o1 s1 = (r, s')"
        using Cons.prems by auto
      from Cons.IH [OF this] f show ?thesis by (rule same_published_trans [rotated])
    next
      assume "snd (resolve_channel_ids E k w (token # rest) out s) = s1"
      with Cons.prems f show ?thesis by simp
    qed
  qed
qed

lemma details_batches_same:
  "details_batches E k w bs d s = (r, s') \<Longrightarrow> same_published s s'"
proof (induction bs arbitrary: d s)
  case Nil
  then show ?case by (simp add: same_published_refl)
next
  case (Cons b bs)
  show ?case
  proof (cases "py_join '','' b")
    case (Inl e)
    with Cons.prems show ?thesis by (auto simp: same_published_refl)
  next
    case (Inr joined)
    obtain r1 s1 where y: "yt_get E ''videos'' (videos_params joined) k w 2 s = (r1, s1)"
      by (cases "yt_get E ''videos'' (videos_params joined) k w 2 s")
    note f = yt_get_same [OF y]
    have "(\<exists>d1. details_batches E k w (b # bs) d s = details_batches E k w bs d1 s1)
        \<or> snd (details_batches E k w (b # bs) d s) = s1"
      using y Inr by (auto split: sum.splits)
    then show ?thesis
    proof
      assume "\<exists>d1. details_batches E k w (b # bs) d s = details_batches E k w bs d1 s1"
      then obtain d1 where "details_batches E k w bs d1 s1 = (r, s')"
        using Cons.prems by auto
      from Cons.IH [OF this] f show ?thesis by (rule same_published_trans [rotated])
    next
      assume "snd (details_batches E k w (b # bs) d s) = s1"
      with Cons.prems f show ?thesis by simp
    qed
  qed
qed

lemma fetch_video_details_same:
  "fetch_video_details E k ids w s = (r, s') \<Longrightarrow> same_published s s'"
  by (auto simp: fetch_video_details_def same_published_refl dest: details_batches_same
      split: if_splits)

lemma subs_batches_same:
  "subs_batches E k w bs d s = (r, s') \<Longrightarrow> same_published s s'"
proof (induction bs arbitrary: d s)
  case Nil
  then show ?case by (simp add: same_published_refl)
next
  case (Cons b bs)
  show ?case
  proof (cases "py_join '','' b")
    case (Inl e)
    with Cons.prems show ?thesis by (auto simp: same_published_refl)
  next
    case (Inr joined)
    let ?ps = "[(''part'', JStr ''statistics''), (''id'', JStr joined)]"
    obtain r1 s1 where y: "yt_get E ''channels'' ?ps k w 2 s = (r1, s1)"
      by (cases "yt_get E ''channels'' ?ps k w 2 s")
    note f = yt_get_same [OF y]
    have "(\<exists>d1. subs_batches E k w (b # bs) d s = subs_batches E k w bs d1 s1)
        \<or> snd (subs_batches E k w (b # bs) d s) = s1"
      using y Inr by (auto split: sum.splits)
    then show ?thesis
    proof
      assume "\<exists>d1. subs_batches E k w (b # bs) d s = subs_batches E k w bs d1 s1"
      then obtain d1 where "subs_batches E k w bs d1 s1 = (r, s')"
        using Cons.prems by auto
      from Cons.IH [OF this] f show ?thesis by (rule same_published_trans [rotated])
    next
      assume "snd (subs_batches E k w (b # bs) d s) = s1"
      with Cons.prems f show ?thesis by simp
    qed
  qed
qed

lemma fetch_channel_subs_same:
  "fetch_channel_subs E k ids w s = (r, s') \<Longrightarrow> same_published s s'"
  by (auto simp: fetch_channel_subs_def same_published_refl dest: subs_batches_same
      split: if_splits)


lemma collect_outcome:
  assumes "collect fuel E rows_of cfg s = (out, s')"
  shows "(\<exists>s5 details subs_map rows. out = Completed \<and> same_published s s5
            \<and> rows_of cfg details subs_map = Inr rows
            \<and> s' = s5\<lparr>results_df := rows, payload_cache := []\<rparr>)
       \<or> (out \<noteq> Completed \<and> same_published s s')"
proof -
  define pa where "pa = JStr (iso_days_ago E (cfg_days_back cfg) @ ''Z'')"
  obtain r1 s1 where st1: "(if cfg_run_mode cfg \<in> {Channel_mode, Both_modes}
            then resolve_channel_ids E (cfg_api_key cfg) (cfg_wait_minutes cfg)
                   (input_channels cfg) [] s
            else (Inr [], s)) = (r1, s1)"
    by fastforce
  have f1: "same_published s s1"
    using st1 by (auto simp: same_published_refl dest: resolve_channel_ids_same split: if_splits)
  show ?thesis
  proof (cases r1)
    case (Inl e)
    with assms st1 f1 show ?thesis by (auto simp add: collect_def)
  next
    case channels: (Inr channels)
    obtain r2 s2 where st2: "walk_all fuel E cfg pa (channel_jobs cfg channels) [] s1 = (r2, s2)"
      by fastforce
    have f2: "same_published s s2"
      using f1 walk_all_same [OF st2] by (rule same_published_trans)
    show ?thesis
    proof (cases "\<exists>c1. r2 = Some (Inr c1)")
      case False
      with assms st1 channels st2 f2 show ?thesis
        by (auto simp: collect_def pa_def split: option.splits sum.splits)
    next
      case True
      then obtain c1 where c1: "r2 = Some (Inr c1)" by blast
      obtain r3 s3 where st3: "walk_all fuel E cfg pa (keyword_jobs cfg) c1 s2 = (r3, s3)"
        by fastforce
      have f3: "same_published s s3"
        using f2 walk_all_same [OF st3] by (rule same_published_trans)
      show ?thesis
      proof (cases "\<exists>c2. r3 = Some (Inr c2)")
        case False
        with assms st1 channels st2 c1 st3 f3 show ?thesis
          by (auto simp: collect_def pa_def split: option.splits sum.splits)
      next
        case True
        then obtain c2 where c2: "r3 = Some (Inr c2)" by blast
        obtain r4 s4 where st4: "fetch_video_details E (cfg_api_key cfg) c2
            (cfg_wait_minutes cfg) s3 = (r4, s4)"
          by fastforce
        have f4: "same_published s s4"
          using f3 fetch_video_details_same [OF st4] by (rule same_published_trans)
        show ?thesis
        proof (cases r4)
          case (Inl e)
          with assms st1 channels st2 c1 st3 c2 st4 f4 show ?thesis
            by (auto simp add: collect_def pa_def)
        next
          case details: (Inr details)
          show ?thesis
          proof (cases "channel_ids_of (map snd details) []")
            case (Inl e)
            with assms st1 channels st2 c1 st3 c2 st4 details f4 show ?thesis
              by (auto simp add: collect_def pa_def)
          next
            case chans: (Inr channel_ids)
            obtain r5 s5 where st5: "(if channel_ids \<noteq> []
                then fetch_channel_subs E (cfg_api_key cfg) channel_ids (cfg_wait_minutes cfg) s4
                else (Inr [], s4)) = (r5, s5)"
              by fastforce
            have "same_published s4 s5"
              using st5
              by (auto simp: same_published_refl dest: fetch_channel_subs_same split: if_splits)
            with f4 have f5: "same_published s s5"
              by (rule same_published_trans)
            show ?thesis
            proof (cases r5)
              case (Inl e)
              with assms st1 channels st2 c1 st3 c2 st4 details chans st5 f5 show ?thesis
                by (auto simp add: collect_def pa_def)
            next
              case subs: (Inr subs_map)
              show ?thesis
              proof (cases "rows_of cfg details subs_map")
                case (Inl e)
                with assms st1 channels st2 c1 st3 c2 st4 details chans st5 subs f5
                show ?thesis
                  by (auto simp add: collect_def pa_def)
              next
                case (Inr rows)
                with assms st1 channels st2 c1 st3 c2 st4 details chans st5 subs
                have "out = Completed" "s' = s5\<lparr>results_df := rows, payload_cache := []\<rparr>"
                  by (simp_all add: collect_def pa_def)
                with Inr f5 show ?thesis by blast
              qed
            qed
          qed
        qed
      qed
    qed
  qed
qed

text \<open>
  C5. A run that completes replaces the published result set by the rows computed in
  this run and empties the payload cache; a run that ends in any other way (stopped on its
  inputs, left by an exception of the gateway or of any other step, or not ended) leaves the
  published result set and the payload cache exactly as they were before the run.
\<close>

theorem run_atomic:
  assumes "run fuel E rows_of cfg s = (out, s')"
  shows "(out = Completed \<longrightarrow>
            (\<exists>details subs_map. rows_of cfg details subs_map = Inr (results_df s'))
            \<and> payload_cache s' = [])
       \<and> (out \<noteq> Completed \<longrightarrow>
            results_df s' = results_df s \<and> payload_cache s' = payload_cache s)"
proof (cases "cfg_api_key cfg = []
    \<or> (length (input_channels cfg) = 0 \<and> length (cfg_effective_keywords cfg) = 0)")
  case True
  with assms show ?thesis
    by (auto simp: run_def split: if_splits)
next
  case False
  with assms have "collect fuel E rows_of cfg s = (out, s')"
    by (auto simp: run_def split: if_splits)
  from collect_outcome [OF this] show ?thesis
    unfolding same_published_def by (elim disjE exE conjE) (simp, blast, simp)
qed



lemma sample_runs:
  "fst (run 3 always_ok sample_rows sample_cfg old_session) = Completed"
  "fst (run 3 always_404 sample_rows sample_cfg old_session) =
     Raised (RuntimeError 404 ''Not Found'')"
  "length (sent (snd (run 3 always_404 sample_rows sample_cfg old_session))) = 1"
  by code_simp+

theorem run_atomic_witness:
  "fst (run 3 always_ok sample_rows sample_cfg old_session) = Completed
   \<and> results_df (snd (run 3 always_ok sample_rows sample_cfg old_session)) = [JStr ''new'']
   \<and> payload_cache (snd (run 3 always_ok sample_rows sample_cfg old_session)) = []
   \<and> fst (run 3 always_404 sample_rows sample_cfg old_session) =
       Raised (RuntimeError 404 ''Not Found'')
   \<and> results_df (snd (run 3 always_404 sample_rows sample_cfg old_session)) = [JStr ''old'']
   \<and> payload_cache (snd (run 3 always_404 sample_rows sample_cfg old_session)) = [JStr ''old'']"
  using run_atomic [of 3 always_ok sample_rows sample_cfg old_session
      "fst (run 3 always_ok sample_rows sample_cfg old_session)"
      "snd (run 3 always_ok sample_rows sample_cfg old_session)"]
    run_atomic [of 3 always_404 sample_rows sample_cfg old_session
      "fst (run 3 always_404 sample_rows sample_cfg old_session)"
      "snd (run 3 always_404 sample_rows sample_cfg old_session)"]
    sample_runs
  by (simp add: sample_rows_def old_session_def)



text \<open>
  In channel mode the keyword list still counts for the input check: with no channel and
  a keyword left in the input tab the run is not stopped, issues no request and completes.
\<close>

lemma leftover_keywords_run:
  "input_channels leftover_cfg = []"
  "run 3 always_404 sample_rows leftover_cfg old_session =
     (Completed, old_session\<lparr>results_df := [JStr ''new''], payload_cache := []\<rparr>)"
  by code_simp+

section \<open>Facts about the metric calculator\<close>

lemmas metrics_defs =
  compute_metrics_def detail_parts_def parse_published_def elapsed_hours_def timestamp_of_def
  views_and_vph_def duration_seconds_def


lemma hours_since_floor: "1 / 10 ^ 6 \<le> hours_since now t" "0 < hours_since now t"
  by (simp_all add: hours_since_def max_def)

lemma hours_since_mono: "now \<le> now' \<Longrightarrow> hours_since now t \<le> hours_since now' t"
  by (auto simp: hours_since_def max_def divide_right_mono)

lemma dbl_overflow_pos: "0 < dbl_overflow"
  by (simp add: dbl_overflow_def)

lemma to_float_mono: "x \<le> y \<Longrightarrow> float_le (to_float x) (to_float y)"
  using dbl_overflow_pos by (auto simp: to_float_def)

lemma py_truediv_pos:
  "0 < b \<Longrightarrow> py_truediv a b =
     (if dbl_overflow \<le> \<bar>real_of_int a\<bar> then Inl OverflowError
      else Inr (to_float (real_of_int a / b)))"
  by (simp add: py_truediv_def)

lemma py_item_no_zdiv: "py_item x k \<noteq> Inl ZeroDivisionError"
  by (cases x) (auto split: option.splits)

lemma py_get_no_zdiv: "py_get x k d \<noteq> Inl ZeroDivisionError"
  by (cases x) auto

lemma py_int_no_zdiv: "py_int E x \<noteq> Inl ZeroDivisionError"
  by (cases x) (auto split: option.splits)

lemma int_or_0_no_zdiv: "int_or_0 E g \<noteq> Inl ZeroDivisionError"
  using py_int_no_zdiv by (auto simp: int_or_0_def split: option.splits)

lemma iso8601_no_zdiv: "iso8601_to_seconds E x \<noteq> Inl ZeroDivisionError"
  using int_or_0_no_zdiv
  by (cases x) (auto simp: iso8601_to_seconds_def Let_def split: prod.splits sum.splits)

lemma detail_parts_no_zdiv: "detail_parts x \<noteq> Inl ZeroDivisionError"
  using py_item_no_zdiv py_get_no_zdiv
  by (auto simp: detail_parts_def split: sum.splits)

lemma parse_published_no_zdiv: "parse_published E x \<noteq> Inl ZeroDivisionError"
  using py_item_no_zdiv
  by (auto simp: parse_published_def split: sum.splits json.splits iso_result.splits)

lemma elapsed_hours_cases:
  "elapsed_hours now r = Inl e \<Longrightarrow> e = TypeError"
  "elapsed_hours now r = Inr hs \<Longrightarrow> hs = hours_since now (timestamp_of r) \<and> r = Aware (timestamp_of r)"
  by (auto simp: elapsed_hours_def timestamp_of_def split: iso_result.splits)

lemma views_and_vph_no_zdiv: "0 < hs \<Longrightarrow> views_and_vph E stats hs \<noteq> Inl ZeroDivisionError"
  using py_get_no_zdiv py_int_no_zdiv
  by (auto simp: views_and_vph_def py_truediv_pos split: sum.splits if_splits)

lemma duration_seconds_no_zdiv: "duration_seconds E content \<noteq> Inl ZeroDivisionError"
  using py_get_no_zdiv iso8601_no_zdiv
  by (auto simp: duration_seconds_def split: sum.splits)

lemma compute_metrics_no_zdiv: "compute_metrics E now detail \<noteq> Inl ZeroDivisionError"
proof
  assume z: "compute_metrics E now detail = Inl ZeroDivisionError"
  have hs: "elapsed_hours now r = Inr hs \<Longrightarrow> 0 < hs" for r hs
    using elapsed_hours_cases(2) [of now r hs] hours_since_floor(2) by simp
  from z show False
    using detail_parts_no_zdiv parse_published_no_zdiv duration_seconds_no_zdiv
      views_and_vph_no_zdiv hs
    by (auto simp: compute_metrics_def split: sum.splits prod.splits
        dest: elapsed_hours_cases(1))
qed

lemma compute_metrics_Inr:
  assumes "compute_metrics E now detail = Inr m"
  shows "py_truediv (views m) (hours_since now (publishedAt m)) = Inr (viewsPerHour m)"
    and "\<exists>snip t. py_item detail ''snippet'' = Inr snip
            \<and> py_item snip ''publishedAt'' = Inr (JStr t)
            \<and> fromisoformat E (replace_Z t) = Aware (publishedAt m)"
    and "\<exists>stats vc. py_get detail ''statistics'' (JObj []) = Inr stats
            \<and> py_get stats ''viewCount'' (JInt 0) = Inr vc \<and> py_int E vc = Inr (views m)"
    and "\<exists>content d. py_get detail ''contentDetails'' (JObj []) = Inr content
            \<and> py_get content ''duration'' (JStr ''PT0S'') = Inr d
            \<and> iso8601_to_seconds E d = Inr (durationSec m)"
  using assms
  by (auto simp: metrics_defs split: sum.splits json.splits iso_result.splits prod.splits)

lemma compute_metrics_returns:
  assumes "py_item detail ''snippet'' = Inr snip"
    and "py_item snip ''publishedAt'' = Inr (JStr t)"
    and "fromisoformat E (replace_Z t) = Aware p"
    and "py_get detail ''statistics'' (JObj []) = Inr stats"
    and "py_get stats ''viewCount'' (JInt 0) = Inr vc"
    and "py_int E vc = Inr v"
    and "\<bar>real_of_int v\<bar> < dbl_overflow"
    and "py_get detail ''contentDetails'' (JObj []) = Inr content"
    and "py_get content ''duration'' (JStr ''PT0S'') = Inr d"
    and "iso8601_to_seconds E d = Inr dur"
  shows "\<exists>m. compute_metrics E now detail = Inr m \<and> views m = v \<and> publishedAt m = p
           \<and> durationSec m = dur"
  using assms
  by (simp add: metrics_defs py_truediv_pos hours_since_floor)

lemma compute_metrics_vph:
  assumes "compute_metrics E now detail = Inr m"
  shows "\<bar>real_of_int (views m)\<bar> < dbl_overflow"
    and "viewsPerHour m = to_float (real_of_int (views m) / hours_since now (publishedAt m))"
  using compute_metrics_Inr(1) [OF assms]
  by (auto simp: py_truediv_pos hours_since_floor split: if_splits)

lemma compute_metrics_same_item:
  assumes "compute_metrics E now detail = Inr m" and "compute_metrics E now' detail = Inr m'"
  shows "views m' = views m" and "publishedAt m' = publishedAt m"
  using compute_metrics_Inr(2,3) [OF assms(1)] compute_metrics_Inr(2,3) [OF assms(2)]
  by auto


text \<open>
  C7 (amended). \<open>compute_metrics\<close> never raises ZeroDivisionError. On a detail
  entry whose fields are read without error and whose view count is below
  \<open>2^1024 - 2^970\<close> in absolute value it returns, with that view count, publication time
  and duration. Whenever it returns, the divisor \<open>max(elapsed_hours, 1e-6)\<close> is at least
  \<open>1e-6\<close> and \<open>viewsPerHour\<close> is the float of \<open>views / max(elapsed_hours, 1e-6)\<close>;
  for a non-negative view count it is a non-negative number or plus infinity, and a
  non-negative number when \<open>views * 10^6\<close> is below \<open>2^1024 - 2^970\<close>; and for the
  same entry with a non-negative view count, read at a later moment, the view count is
  the same and \<open>viewsPerHour\<close> is not greater.
\<close>

theorem compute_metrics_views_per_hour:
  "compute_metrics E now detail \<noteq> Inl ZeroDivisionError
   \<and> (\<forall>snip t p stats vc v content d dur.
         py_item detail ''snippet'' = Inr snip
         \<and> py_item snip ''publishedAt'' = Inr (JStr t)
         \<and> fromisoformat E (replace_Z t) = Aware p
         \<and> py_get detail ''statistics'' (JObj []) = Inr stats
         \<and> py_get stats ''viewCount'' (JInt 0) = Inr vc
         \<and> py_int E vc = Inr v
         \<and> \<bar>real_of_int v\<bar> < dbl_overflow
         \<and> py_get detail ''contentDetails'' (JObj []) = Inr content
         \<and> py_get content ''duration'' (JStr ''PT0S'') = Inr d
         \<and> iso8601_to_seconds E d = Inr dur
         \<longrightarrow> (\<exists>m. compute_metrics E now detail = Inr m \<and> views m = v \<and> publishedAt m = p
                  \<and> durationSec m = dur))
   \<and> (\<forall>m. compute_metrics E now detail = Inr m \<longrightarrow>
         1 / 10 ^ 6 \<le> hours_since now (publishedAt m)
         \<and> viewsPerHour m = to_float (real_of_int (views m) / hours_since now (publishedAt m))
         \<and> (0 \<le> views m \<longrightarrow>
               viewsPerHour m = PInf \<or> (\<exists>x. viewsPerHour m = Fin x \<and> 0 \<le> x))
         \<and> (0 \<le> views m \<and> real_of_int (views m) * 10 ^ 6 < dbl_overflow \<longrightarrow>
               (\<exists>x. viewsPerHour m = Fin x \<and> 0 \<le> x))
         \<and> (\<forall>now' m'. 0 \<le> views m \<and> now \<le> now'
                 \<and> compute_metrics E now' detail = Inr m' \<longrightarrow>
               views m' = views m \<and> float_le (viewsPerHour m') (viewsPerHour m)))"
proof -
  have p1: "compute_metrics E now detail \<noteq> Inl ZeroDivisionError"
    by (rule compute_metrics_no_zdiv)
  have p2: "\<forall>snip t p stats vc v content d dur.
         py_item detail ''snippet'' = Inr snip
         \<and> py_item snip ''publishedAt'' = Inr (JStr t)
         \<and> fromisoformat E (replace_Z t) = Aware p
         \<and> py_get detail ''statistics'' (JObj []) = Inr stats
         \<and> py_get stats ''viewCount'' (JInt 0) = Inr vc
         \<and> py_int E vc = Inr v
         \<and> \<bar>real_of_int v\<bar> < dbl_overflow
         \<and> py_get detail ''contentDetails'' (JObj []) = Inr content
         \<and> py_get content ''duration'' (JStr ''PT0S'') = Inr d
         \<and> iso8601_to_seconds E d = Inr dur
         \<longrightarrow> (\<exists>m. compute_metrics E now detail = Inr m \<and> views m = v \<and> publishedAt m = p
                  \<and> durationSec m = dur)"
    using compute_metrics_returns [of detail _ _ E _ _ _ _ _ _ _ now] by blast
  have p3: "1 / 10 ^ 6 \<le> hours_since now (publishedAt m)
         \<and> viewsPerHour m = to_float (real_of_int (views m) / hours_since now (publishedAt m))
         \<and> (0 \<le> views m \<longrightarrow>
               viewsPerHour m = PInf \<or> (\<exists>x. viewsPerHour m = Fin x \<and> 0 \<le> x))
         \<and> (0 \<le> views m \<and> real_of_int (views m) * 10 ^ 6 < dbl_overflow \<longrightarrow>
               (\<exists>x. viewsPerHour m = Fin x \<and> 0 \<le> x))
         \<and> (\<forall>now' m'. 0 \<le> views m \<and> now \<le> now'
                 \<and> compute_metrics E now' detail = Inr m' \<longrightarrow>
               views m' = views m \<and> float_le (viewsPerHour m') (viewsPerHour m))"
    if m: "compute_metrics E now detail = Inr m" for m
  proof -
    let ?q = "real_of_int (views m) / hours_since now (publishedAt m)"
    note v = compute_metrics_vph [OF m]
    have q1: "1 / 10 ^ 6 \<le> hours_since now (publishedAt m)"
      by (rule hours_since_floor)
    have q3: "viewsPerHour m = PInf \<or> (\<exists>x. viewsPerHour m = Fin x \<and> 0 \<le> x)"
      if nn: "0 \<le> views m"
    proof -
      from nn have "0 \<le> ?q"
        using hours_since_floor(2) [of now "publishedAt m"] by simp
      with v(2) dbl_overflow_pos show ?thesis
        by (auto simp: to_float_def)
    qed
    have q4: "\<exists>x. viewsPerHour m = Fin x \<and> 0 \<le> x"
      if nn: "0 \<le> views m" and small: "real_of_int (views m) * 10 ^ 6 < dbl_overflow"
    proof -
      have "?q \<le> real_of_int (views m) / (1 / 10 ^ 6)"
        using nn hours_since_floor(1) [of now "publishedAt m"]
        by (intro divide_left_mono) simp_all
      with small have "?q < dbl_overflow" by simp
      moreover have "0 \<le> ?q"
        using nn hours_since_floor(2) [of now "publishedAt m"] by simp
      ultimately show ?thesis
        using v(2) dbl_overflow_pos by (auto simp: to_float_def)
    qed
    have q5: "views m' = views m \<and> float_le (viewsPerHour m') (viewsPerHour m)"
      if nn: "0 \<le> views m" and le: "now \<le> now'"
        and m': "compute_metrics E now' detail = Inr m'" for now' m'
    proof -
      note same = compute_metrics_same_item [OF m m']
      have "real_of_int (views m) / hours_since now' (publishedAt m) \<le> ?q"
        using nn hours_since_mono [OF le, of "publishedAt m"]
          hours_since_floor(2) [of now "publishedAt m"]
        by (intro divide_left_mono) (simp_all add: hours_since_floor(2))
      then have "float_le (to_float (real_of_int (views m) / hours_since now' (publishedAt m)))
          (to_float ?q)"
        by (rule to_float_mono)
      with same compute_metrics_vph(2) [OF m'] v(2) show ?thesis
        by simp
    qed
    from q1 v(2) q3 q4 q5 show ?thesis
      by blast
  qed
  from p1 p2 p3 show ?thesis
    by blast
qed



lemma dbl_overflow_bounds: "10 ^ 308 < dbl_overflow" "dbl_overflow < 10 ^ 309"
  by (simp_all add: dbl_overflow_def)

lemma huge_views_facts:
  "0 \<le> huge_views" "\<bar>real_of_int huge_views\<bar> < dbl_overflow"
  "dbl_overflow \<le> real_of_int huge_views / (1 / 10 ^ 6)"
  "dbl_overflow \<le> \<bar>real_of_int huger_views\<bar>"
  using dbl_overflow_bounds by (simp_all add: huge_views_def huger_views_def)

lemma digits_value_snoc:
  "digits_value (ds @ [c]) = 10 * digits_value ds + (int (of_char c) - 48)"
  by (simp add: digits_value_def)

lemma digits_value_one_zeros: "digits_value (CHR ''1'' # replicate n CHR ''0'') = 10 ^ n"
proof (induction n)
  case 0
  then show ?case by (simp add: digits_value_def)
next
  case (Suc n)
  have "CHR ''1'' # replicate (Suc n) CHR ''0'' = (CHR ''1'' # replicate n CHR ''0'') @ [CHR ''0'']"
    by (simp add: replicate_append_same)
  with Suc show ?case
    by (simp only: digits_value_snoc) simp
qed

lemma sample_int_of_one_zeros:
  "sample_int_of (CHR ''1'' # replicate n CHR ''0'') = Some (10 ^ n)"
  by (simp add: sample_int_of_def digits_value_one_zeros is_digit_def list_all_iff)

lemma sample_views:
  "py_int metrics_env (JStr ''5000000'') = Inr 5000000"
  "py_int metrics_env (JStr (CHR ''1'' # replicate 303 CHR ''0'')) = Inr huge_views"
  "py_int metrics_env (JStr (CHR ''1'' # replicate 309 CHR ''0'')) = Inr huger_views"
proof -
  show "py_int metrics_env (JStr ''5000000'') = Inr 5000000"
    by code_simp
  show "py_int metrics_env (JStr (CHR ''1'' # replicate 303 CHR ''0'')) = Inr huge_views"
    by (simp add: metrics_env_def sample_int_of_one_zeros huge_views_def)
  show "py_int metrics_env (JStr (CHR ''1'' # replicate 309 CHR ''0'')) = Inr huger_views"
    by (simp add: metrics_env_def sample_int_of_one_zeros huger_views_def)
qed

lemma sample_detail_fields:
  "py_item (sample_detail vc) ''snippet'' = Inr (JObj [(''publishedAt'', JStr ''2024-01-01T00:00:00Z'')])"
  "py_get (sample_detail vc) ''statistics'' (JObj []) = Inr (JObj [(''viewCount'', JStr vc)])"
  "py_get (sample_detail vc) ''contentDetails'' (JObj []) = Inr (JObj [(''duration'', JStr ''PT1H2M3S'')])"
  "fromisoformat metrics_env t = Aware 0"
  by (simp_all add: sample_detail_def metrics_env_def)

lemma sample_duration: "iso8601_to_seconds metrics_env (JStr ''PT1H2M3S'') = Inr 3723"
  by code_simp

lemma iso8601_examples:
  "iso8601_to_seconds metrics_env (JStr ''PT0S'') = Inr 0"
  "iso8601_to_seconds metrics_env (JStr ''PT15M'') = Inr 900"
  "iso8601_to_seconds metrics_env (JStr ''P1DT2H'') = Inr 0"
  "iso8601_to_seconds metrics_env (JStr ''PT5S3M'') = Inr 0"
  "iso8601_to_seconds metrics_env JNull = Inl TypeError"
  by code_simp+

theorem compute_metrics_views_per_hour_witness:
  "(\<exists>m. compute_metrics metrics_env 7200 (sample_detail ''5000000'') = Inr m
        \<and> views m = 5000000 \<and> viewsPerHour m = Fin 2500000 \<and> durationSec m = 3723)
   \<and> (\<exists>m'. compute_metrics metrics_env 14400 (sample_detail ''5000000'') = Inr m'
        \<and> views m' = 5000000 \<and> viewsPerHour m' = Fin 1250000)
   \<and> float_le (Fin 1250000) (Fin 2500000)"
proof -
  let ?d = "sample_detail ''5000000''"
  note T1 = compute_metrics_views_per_hour [of metrics_env 7200 ?d]
  note T2 = compute_metrics_views_per_hour [of metrics_env 14400 ?d]
  have small: "\<bar>real_of_int 5000000\<bar> < dbl_overflow"
    using dbl_overflow_bounds(1) by simp
  have wf: "py_item ?d ''snippet'' = Inr (JObj [(''publishedAt'', JStr ''2024-01-01T00:00:00Z'')])
      \<and> py_item (JObj [(''publishedAt'', JStr ''2024-01-01T00:00:00Z'')]) ''publishedAt'' =
          Inr (JStr ''2024-01-01T00:00:00Z'')
      \<and> fromisoformat metrics_env (replace_Z ''2024-01-01T00:00:00Z'') = Aware 0
      \<and> py_get ?d ''statistics'' (JObj []) = Inr (JObj [(''viewCount'', JStr ''5000000'')])
      \<and> py_get (JObj [(''viewCount'', JStr ''5000000'')]) ''viewCount'' (JInt 0) =
          Inr (JStr ''5000000'')
      \<and> py_int metrics_env (JStr ''5000000'') = Inr 5000000
      \<and> \<bar>real_of_int 5000000\<bar> < dbl_overflow
      \<and> py_get ?d ''contentDetails'' (JObj []) = Inr (JObj [(''duration'', JStr ''PT1H2M3S'')])
      \<and> py_get (JObj [(''duration'', JStr ''PT1H2M3S'')]) ''duration'' (JStr ''PT0S'') =
          Inr (JStr ''PT1H2M3S'')
      \<and> iso8601_to_seconds metrics_env (JStr ''PT1H2M3S'') = Inr 3723"
    using small by (simp add: sample_detail_fields sample_views(1) sample_duration del: py_int.simps)
  from T1 [THEN conjunct2, THEN conjunct1, rule_format, OF wf]
  obtain m where m: "compute_metrics metrics_env 7200 ?d = Inr m"
    "views m = 5000000" "publishedAt m = 0" "durationSec m = 3723"
    by blast
  from T2 [THEN conjunct2, THEN conjunct1, rule_format, OF wf]
  obtain m' where m': "compute_metrics metrics_env 14400 ?d = Inr m'"
    "views m' = 5000000" "publishedAt m' = 0"
    by blast
  have big: "\<not> dbl_overflow \<le> 2500000" "\<not> dbl_overflow \<le> 1250000"
    using dbl_overflow_bounds(1) by simp_all
  from T1 [THEN conjunct2, THEN conjunct2, rule_format, OF m(1)]
  have "viewsPerHour m = to_float (real_of_int (views m) / hours_since 7200 (publishedAt m))"
    by blast
  then have v: "viewsPerHour m = Fin 2500000"
    using big dbl_overflow_pos by (simp add: m(2,3) hours_since_def to_float_def)
  from T2 [THEN conjunct2, THEN conjunct2, rule_format, OF m'(1)]
  have "viewsPerHour m' = to_float (real_of_int (views m') / hours_since 14400 (publishedAt m'))"
    by blast
  then have v': "viewsPerHour m' = Fin 1250000"
    using big dbl_overflow_pos by (simp add: m'(2,3) hours_since_def to_float_def)
  from m v m' v' show ?thesis
    by simp
qed

text \<open>
  A view count of \<open>10^303\<close> read at the moment of publication: the divisor is
  \<open>1e-6\<close> and \<open>viewsPerHour\<close> is plus infinity. A view count of \<open>10^309\<close>: the
  division raises OverflowError.
\<close>

theorem compute_metrics_overflow_counterexample:
  "0 \<le> huge_views
   \<and> map_sum id viewsPerHour
        (compute_metrics metrics_env 0 (sample_detail (CHR ''1'' # replicate 303 CHR ''0''))) =
       Inr PInf
   \<and> map_sum id views
        (compute_metrics metrics_env 0 (sample_detail (CHR ''1'' # replicate 303 CHR ''0''))) =
       Inr huge_views
   \<and> compute_metrics metrics_env 0 (sample_detail (CHR ''1'' # replicate 309 CHR ''0'')) =
       Inl OverflowError"
proof -
  have h: "hours_since 0 0 = 1 / 10 ^ 6"
    by (simp add: hours_since_def)
  have t: "py_truediv huge_views (hours_since 0 0) = Inr PInf"
    "py_truediv huger_views (hours_since 0 0) = Inl OverflowError"
    unfolding h using huge_views_facts by (simp_all add: py_truediv_def to_float_def)
  have v: "views_and_vph metrics_env
        (JObj [(''viewCount'', JStr (CHR ''1'' # replicate 303 CHR ''0''))]) (hours_since 0 0) =
      Inr (huge_views, PInf)"
    "views_and_vph metrics_env
        (JObj [(''viewCount'', JStr (CHR ''1'' # replicate 309 CHR ''0''))]) (hours_since 0 0) =
      Inl OverflowError"
    using sample_views(2,3) by (simp_all add: views_and_vph_def t del: py_int.simps)
  have d: "duration_seconds metrics_env (JObj [(''duration'', JStr ''PT1H2M3S'')]) = Inr 3723"
    using sample_duration by (simp add: duration_seconds_def)
  show ?thesis
    using huge_views_facts(1)
    by (simp add: compute_metrics_def detail_parts_def parse_published_def elapsed_hours_def
        timestamp_of_def sample_detail_fields v d)
qed

end
